theory Spec2Isabelle
  imports Complex_Main "HOL-Library.Monad_Syntax" "HOL-Library.Multiset"
begin

section \<open>Conventions of the embedding\<close>

text \<open>
  The repository is a Cython extension (\<^verbatim>\<open>moltr/lambdaobj.pyx\<close>), a C++ helper
  (\<^verbatim>\<open>argsort.cpp\<close>) and a notebook that wraps both as training objectives.

  \<^item> A C \<^verbatim>\<open>double\<close> is a \<^typ>\<open>real\<close>: arithmetic is exact, there is no rounding, no
    infinity and no NaN. Every statement below is one of exact arithmetic.
  \<^item> A C \<^verbatim>\<open>int\<close> or \<^verbatim>\<open>long\<close> is an \<^typ>\<open>int\<close>. The two places where a value is
    narrowed to 32 bits are written out (\<open>long_to_int\<close>, \<open>double_to_int\<close>); 64-bit
    arithmetic on array offsets is taken not to overflow.
  \<^item> An array behind a pointer is a list. The native code checks no bound, so a read
    or write outside the list has no defined result: the model returns \<open>None\<close> there,
    as it does for a failed allocation and for a conversion that does not fit.
  \<^item> In-place updates of \<^verbatim>\<open>grad\<close> and \<^verbatim>\<open>hess\<close> are explicit state passing: the
    kernel functions take both arrays and return the updated pair. All other arrays
    are only read; the callers allocate \<^verbatim>\<open>grad\<close> and \<^verbatim>\<open>hess\<close> freshly, so they do
    not alias any other argument.
\<close>

definition rd :: "'a list \<Rightarrow> int \<Rightarrow> 'a option" where
  "rd a i = (if 0 \<le> i \<and> i < int (length a) then Some (a ! nat i) else None)"

definition wr :: "'a list \<Rightarrow> int \<Rightarrow> 'a \<Rightarrow> 'a list option" where
  "wr a i v = (if 0 \<le> i \<and> i < int (length a) then Some (a[nat i := v]) else None)"

text \<open>\<^verbatim>\<open>p + k\<close> for a pointer \<^verbatim>\<open>p\<close> to the first element of an array.\<close>

definition ptr_add :: "'a list \<Rightarrow> int \<Rightarrow> 'a list option" where
  "ptr_add a k = (if 0 \<le> k \<and> k \<le> int (length a) then Some (drop (nat k) a) else None)"

text \<open>Conversion of a \<^verbatim>\<open>long\<close> to an \<^verbatim>\<open>int\<close>: the low 32 bits, read as signed.\<close>

definition long_to_int :: "int \<Rightarrow> int" where
  "long_to_int n = signed_take_bit 31 n"

text \<open>
  Conversion of a \<^verbatim>\<open>double\<close> to an \<^verbatim>\<open>int\<close> (the cast \<^verbatim>\<open><int>\<close>): the fraction is
  discarded, rounding toward zero; a value outside the range of \<^verbatim>\<open>int\<close> has no
  defined result.
\<close>

definition double_to_int :: "real \<Rightarrow> int option" where
  "double_to_int x =
     (let t = (if 0 \<le> x then \<lfloor>x\<rfloor> else \<lceil>x\<rceil>)
      in if - (2 ^ 31) \<le> t \<and> t < 2 ^ 31 then Some t else None)"

text \<open>A counted loop whose body may fail: the first failure ends it.\<close>

fun for_each :: "'a list \<Rightarrow> ('a \<Rightarrow> 's \<Rightarrow> 's option) \<Rightarrow> 's \<Rightarrow> 's option" where
  "for_each [] body s = Some s"
| "for_each (x # xs) body s = (case body x s of None \<Rightarrow> None | Some s' \<Rightarrow> for_each xs body s')"

text \<open>\<^verbatim>\<open>range(n)\<close>, and the bounds of \<^verbatim>\<open>for (int i = 0; i < n; i++)\<close>: empty when \<open>n \<le> 0\<close>.\<close>

definition range_upto :: "int \<Rightarrow> int list" where
  "range_upto n = [0..n - 1]"

section \<open>The permutation sort utility (argsort.cpp)\<close>

record IndexedElement =
  index :: int
  "value" :: real

definition cmp :: "IndexedElement \<Rightarrow> IndexedElement \<Rightarrow> bool" where
  "cmp a b = (value a > value b)"

text \<open>
  \<^verbatim>\<open>std::stable_sort(first, last, comp)\<close> belongs to the C++ standard library: it orders
  the range by \<^verbatim>\<open>comp\<close> and keeps equivalent elements in their original order. It is
  rendered as the insertion sort that places each element in front of the sorted rest
  and moves it behind exactly those elements that \<^verbatim>\<open>comp\<close> puts before it.
\<close>

fun stable_insert :: "('a \<Rightarrow> 'a \<Rightarrow> bool) \<Rightarrow> 'a \<Rightarrow> 'a list \<Rightarrow> 'a list" where
  "stable_insert lt x [] = [x]"
| "stable_insert lt x (y # ys) =
     (if lt y x then y # stable_insert lt x ys else x # y # ys)"

fun stable_sort :: "('a \<Rightarrow> 'a \<Rightarrow> bool) \<Rightarrow> 'a list \<Rightarrow> 'a list" where
  "stable_sort lt [] = []"
| "stable_sort lt (x # xs) = stable_insert lt x (stable_sort lt xs)"

text \<open>
  \<^verbatim>\<open>void argsort(double* data, int* indices, int n)\<close>. The result is the content of
  \<^verbatim>\<open>indices[0..n)\<close> after the call.
  \<^item> \<^verbatim>\<open>new IndexedElement[n]\<close> with a negative \<open>n\<close> is an erroneous array bound: no
    storage is obtained (the expression throws \<^verbatim>\<open>std::bad_array_new_length\<close>, and had
    no defined behaviour before C++11), so nothing is returned.
  \<^item> The first loop reads \<^verbatim>\<open>data[0..n)\<close>, which must exist.
\<close>

definition argsort :: "real list \<Rightarrow> int \<Rightarrow> int list option" where
  "argsort data n =
     (if n < 0 then None
      else do {
        order_struct \<leftarrow> those (map (\<lambda>i. map_option (\<lambda>v. \<lparr>index = i, value = v\<rparr>) (rd data i))
                                  (range_upto n));
        let order_struct = stable_sort cmp order_struct;
        Some (map (\<lambda>i. index (order_struct ! nat i)) (range_upto n))
      })"

section \<open>The gradient kernel (moltr/lambdaobj.pyx)\<close>

text \<open>
  \<^verbatim>\<open>get_sigmoid\<close> returns \<^verbatim>\<open>sigmoid_table[k]\<close> for an index \<open>k\<close> chosen by three
  branches; \<open>sigmoid_idx\<close> is that index.
\<close>

definition sigmoid_idx :: "real \<Rightarrow> int \<Rightarrow> real \<Rightarrow> real \<Rightarrow> real \<Rightarrow> int option" where
  "sigmoid_idx score n_sigmoid_bins min_sigmoid_arg max_sigmoid_arg sigmoid_idx_factor =
     (if score \<le> min_sigmoid_arg then Some 0
      else if score \<ge> max_sigmoid_arg then Some (n_sigmoid_bins - 1)
      else double_to_int ((score - min_sigmoid_arg) * sigmoid_idx_factor))"

definition get_sigmoid :: "real \<Rightarrow> real list \<Rightarrow> int \<Rightarrow> real \<Rightarrow> real \<Rightarrow> real \<Rightarrow> real option" where
  "get_sigmoid score sigmoid_table n_sigmoid_bins min_sigmoid_arg max_sigmoid_arg sigmoid_idx_factor =
     do {
       k \<leftarrow> sigmoid_idx score n_sigmoid_bins min_sigmoid_arg max_sigmoid_arg sigmoid_idx_factor;
       rd sigmoid_table k
     }"

text \<open>
  The read-only arguments of \<^verbatim>\<open>get_gradients_for_one_query\<close>, which its two loops
  share, each under its parameter name with the prefix \<open>q_\<close>.
\<close>

record query_args =
  q_gains :: "real list"
  q_preds :: "real list"
  q_start :: int
  q_end :: int
  q_discounts :: "real list"
  q_inverse_max_dcg :: real
  q_sigmoid_table :: "real list"
  q_n_sigmoid_bins :: int
  q_min_sigmoid_arg :: real
  q_max_sigmoid_arg :: real
  q_sigmoid_idx_factor :: real

text \<open>
  The body of the inner loop (lines 71 to 96), for the positions \<open>i\<close> and \<open>j\<close> of the
  sorted order. \<^verbatim>\<open>n_sigmoid_bins\<close> is a \<^verbatim>\<open>long\<close> here and an \<^verbatim>\<open>int\<close> parameter of
  \<^verbatim>\<open>get_sigmoid\<close>.
\<close>

definition inner_body ::
  "query_args \<Rightarrow> int list \<Rightarrow> bool \<Rightarrow> int \<Rightarrow> int \<Rightarrow> real \<Rightarrow> real \<Rightarrow> int
     \<Rightarrow> real list \<times> real list \<Rightarrow> (real list \<times> real list) option" where
  "inner_body a sorted_idx should_adjust i high gain_high score_high j gh =
     (case gh of (grad, hess) \<Rightarrow>
      do {
        low \<leftarrow> rd sorted_idx j;
        gain_low \<leftarrow> rd (q_gains a) (q_start a + low);
        score_low \<leftarrow> rd (q_preds a) (q_start a + low);
        if gain_high > gain_low then
          do {
            let delta_score = score_high - score_low;
            p_lambda \<leftarrow> get_sigmoid delta_score (q_sigmoid_table a) (long_to_int (q_n_sigmoid_bins a))
                          (q_min_sigmoid_arg a) (q_max_sigmoid_arg a) (q_sigmoid_idx_factor a);
            let p_hess = p_lambda * (2 - p_lambda);
            let gain_diff = gain_high - gain_low;
            discount_j \<leftarrow> rd (q_discounts a) (1 + j);
            discount_i \<leftarrow> rd (q_discounts a) (1 + i);
            let paired_discount = \<bar>discount_j - discount_i\<bar>;
            let abs_delta_ndcg = gain_diff * paired_discount * q_inverse_max_dcg a;
            let abs_delta_ndcg =
                  (if should_adjust then abs_delta_ndcg / (0.01 + \<bar>delta_score\<bar>)
                   else abs_delta_ndcg);
            let p_lambda = p_lambda * (- abs_delta_ndcg);
            let p_hess = p_hess * (2 * abs_delta_ndcg);
            g \<leftarrow> rd grad (q_start a + high);
            grad \<leftarrow> wr grad (q_start a + high) (g + p_lambda);
            h \<leftarrow> rd hess (q_start a + high);
            hess \<leftarrow> wr hess (q_start a + high) (h + p_hess);
            g \<leftarrow> rd grad (q_start a + low);
            grad \<leftarrow> wr grad (q_start a + low) (g - p_lambda);
            h \<leftarrow> rd hess (q_start a + low);
            hess \<leftarrow> wr hess (q_start a + low) (h + p_hess);
            Some (grad, hess)
          }
        else Some (grad, hess)
      })"

text \<open>The body of the outer loop (lines 67 to 96).\<close>

definition outer_body ::
  "query_args \<Rightarrow> int list \<Rightarrow> bool \<Rightarrow> int \<Rightarrow> int
     \<Rightarrow> real list \<times> real list \<Rightarrow> (real list \<times> real list) option" where
  "outer_body a sorted_idx should_adjust cnt i gh =
     do {
       high \<leftarrow> rd sorted_idx i;
       gain_high \<leftarrow> rd (q_gains a) (q_start a + high);
       score_high \<leftarrow> rd (q_preds a) (q_start a + high);
       for_each (range_upto cnt)
         (inner_body a sorted_idx should_adjust i high gain_high score_high) gh
     }"

text \<open>
  \<^verbatim>\<open>get_gradients_for_one_query\<close>. The scratch array \<^verbatim>\<open>sorted_idx\<close> has \<^verbatim>\<open>cnt\<close> entries,
  which \<^verbatim>\<open>argsort\<close> fills; \<^verbatim>\<open>sorted_idx[0]\<close> and \<^verbatim>\<open>sorted_idx[cnt - 1]\<close> are read
  before the loops, whatever \<^verbatim>\<open>cnt\<close> is.
\<close>

definition get_gradients_for_one_query ::
  "query_args \<Rightarrow> real list \<times> real list \<Rightarrow> (real list \<times> real list) option" where
  "get_gradients_for_one_query a gh =
     do {
       let cnt = long_to_int (q_end a - q_start a);
       data \<leftarrow> ptr_add (q_preds a) (q_start a);
       sorted_idx \<leftarrow> argsort data cnt;
       first \<leftarrow> rd sorted_idx 0;
       best_score \<leftarrow> rd (q_preds a) (q_start a + first);
       final \<leftarrow> rd sorted_idx (cnt - 1);
       worst_score \<leftarrow> rd (q_preds a) (q_start a + final);
       let should_adjust = (best_score \<noteq> worst_score);
       for_each (range_upto cnt) (outer_body a sorted_idx should_adjust cnt) gh
     }"

text \<open>\<^verbatim>\<open>memset(p, 0, n * sizeof(double))\<close> on an array of doubles.\<close>

definition memset_zero :: "real list \<Rightarrow> int \<Rightarrow> real list option" where
  "memset_zero a n =
     (if 0 \<le> n \<and> n \<le> int (length a) then Some (replicate (nat n) 0 @ drop (nat n) a) else None)"

text \<open>
  \<^verbatim>\<open>_get_gradients\<close>. The \<^verbatim>\<open>prange\<close> loop over the queries is run in index order;
  the parameter \<^verbatim>\<open>groups\<close> is not used by the body.
\<close>

definition query_body ::
  "real list \<Rightarrow> real list \<Rightarrow> int list \<Rightarrow> real list \<Rightarrow> real list \<Rightarrow> real list
     \<Rightarrow> int \<Rightarrow> real \<Rightarrow> real \<Rightarrow> real \<Rightarrow> int
     \<Rightarrow> real list \<times> real list \<Rightarrow> (real list \<times> real list) option" where
  "query_body gains preds query_boundaries discounts inverse_max_dcgs sigmoid_table
       n_sigmoid_bins min_sigmoid_arg max_sigmoid_arg sigmoid_idx_factor i gh =
     do {
       start \<leftarrow> rd query_boundaries i;
       end' \<leftarrow> rd query_boundaries (i + 1);
       inverse_max_dcg \<leftarrow> rd inverse_max_dcgs i;
       get_gradients_for_one_query
         \<lparr>q_gains = gains, q_preds = preds, q_start = start, q_end = end',
          q_discounts = discounts, q_inverse_max_dcg = inverse_max_dcg,
          q_sigmoid_table = sigmoid_table, q_n_sigmoid_bins = n_sigmoid_bins,
          q_min_sigmoid_arg = min_sigmoid_arg, q_max_sigmoid_arg = max_sigmoid_arg,
          q_sigmoid_idx_factor = sigmoid_idx_factor\<rparr> gh
     }"

definition get_gradients_native ::
  "real list \<Rightarrow> real list \<Rightarrow> int \<Rightarrow> int list \<Rightarrow> int list \<Rightarrow> int \<Rightarrow> real list \<Rightarrow> real list
     \<Rightarrow> real list \<Rightarrow> int \<Rightarrow> real \<Rightarrow> real \<Rightarrow> real \<Rightarrow> real list \<Rightarrow> real list
     \<Rightarrow> (real list \<times> real list) option" where
  "get_gradients_native gains preds n_preds groups query_boundaries n_queries discounts
       inverse_max_dcgs sigmoid_table n_sigmoid_bins min_sigmoid_arg max_sigmoid_arg
       sigmoid_idx_factor grad hess =
     do {
       grad \<leftarrow> memset_zero grad n_preds;
       hess \<leftarrow> memset_zero hess n_preds;
       for_each (range_upto n_queries)
         (query_body gains preds query_boundaries discounts inverse_max_dcgs sigmoid_table
            n_sigmoid_bins min_sigmoid_arg max_sigmoid_arg sigmoid_idx_factor)
         (grad, hess)
     }"

section \<open>The Python entry point and the objectives (notebook)\<close>

text \<open>
  What a Python call can do: return, raise, or leave Python altogether because the native
  code had no defined result (\<open>None\<close>).
\<close>

datatype py_error = NameError | IndexError

type_synonym 'a py_result = "(py_error + 'a) option"

text \<open>
  \<^verbatim>\<open>def get_gradients(...)\<close>. Each argument \<^verbatim>\<open>&x[0]\<close> indexes a typed memoryview; bounds
  checking is Cython's default and the file switches it off nowhere, so an empty array
  raises \<^verbatim>\<open>IndexError\<close>. The function updates \<^verbatim>\<open>grad\<close> and \<^verbatim>\<open>hess\<close> in place; the model
  returns them.
\<close>

definition get_gradients ::
  "real list \<Rightarrow> real list \<Rightarrow> int \<Rightarrow> int list \<Rightarrow> int list \<Rightarrow> int \<Rightarrow> real list \<Rightarrow> real list
     \<Rightarrow> real list \<Rightarrow> int \<Rightarrow> real \<Rightarrow> real \<Rightarrow> real \<Rightarrow> real list \<Rightarrow> real list
     \<Rightarrow> (real list \<times> real list) py_result" where
  "get_gradients gains preds n_preds groups query_boundaries n_queries discounts
       inverse_max_dcgs sigmoid_table n_sigmoid_bins min_sigmoid_arg max_sigmoid_arg
       sigmoid_idx_factor grad hess =
     (if gains = [] \<or> preds = [] \<or> groups = [] \<or> query_boundaries = [] \<or> discounts = []
         \<or> inverse_max_dcgs = [] \<or> sigmoid_table = [] \<or> grad = [] \<or> hess = []
      then Some (Inl IndexError)
      else map_option Inr
             (get_gradients_native gains preds n_preds groups query_boundaries n_queries discounts
                inverse_max_dcgs sigmoid_table n_sigmoid_bins min_sigmoid_arg max_sigmoid_arg
                sigmoid_idx_factor grad hess))"

text \<open>
  \<^verbatim>\<open>moltr/calculator.py\<close> is not among the sources. Of a \<^verbatim>\<open>Calculator\<close> the objectives
  read five attributes, which are the fields here, each under its name with the prefix
  \<open>c_\<close>; the module constants
  \<^verbatim>\<open>MIN_SIGMOID_ARG\<close> and \<^verbatim>\<open>MAX_SIGMOID_ARG\<close> are parameters of the objectives.
\<close>

record Calculator =
  c_query_boundaries :: "int list"
  c_discounts :: "real list"
  c_inverse_max_dcgs :: "real list"
  c_sigmoids :: "real list"
  c_sigmoid_idx_factor :: real

text \<open>
  \<^verbatim>\<open>lgb.Dataset\<close>, as far as the objectives use it (\<^verbatim>\<open>label\<close>, \<^verbatim>\<open>get_group()\<close>), and its
  two subclasses.
\<close>

record Dataset =
  label :: "real list"
  get_group :: "int list"

record DatasetWithCalculator = Dataset +
  calculator :: Calculator

record DatasetWithTwoLabels = Dataset +
  label_2 :: "real list"
  calculator_1 :: Calculator
  calculator_2 :: Calculator
  alpha :: real

text \<open>\<^verbatim>\<open>self.label_1 = self.label\<close>\<close>

definition label_1 :: "DatasetWithTwoLabels \<Rightarrow> real list" where
  "label_1 dataset = label dataset"

text \<open>\<^verbatim>\<open>np.zeros(n)\<close>\<close>

definition zeros :: "nat \<Rightarrow> real list" where
  "zeros n = replicate n 0"

text \<open>
  \<^verbatim>\<open>lambdamart_objective\<close>. The guard raises \<^verbatim>\<open>Error\<close>, a name that is bound nowhere:
  evaluating it raises \<^verbatim>\<open>NameError\<close>.
\<close>

definition lambdamart_objective ::
  "real \<Rightarrow> real \<Rightarrow> real list \<Rightarrow> DatasetWithCalculator \<Rightarrow> (real list \<times> real list) py_result" where
  "lambdamart_objective MIN_SIGMOID_ARG MAX_SIGMOID_ARG preds dataset =
     (let groups = get_group dataset in
      if length groups = 0 then Some (Inl NameError)
      else
        let grad = zeros (length preds);
            hess = zeros (length preds)
        in get_gradients (label dataset) preds (int (length preds)) groups
             (c_query_boundaries (calculator dataset))
             (int (length (c_query_boundaries (calculator dataset))) - 1)
             (c_discounts (calculator dataset))
             (c_inverse_max_dcgs (calculator dataset))
             (c_sigmoids (calculator dataset))
             (int (length (c_sigmoids (calculator dataset))))
             MIN_SIGMOID_ARG MAX_SIGMOID_ARG
             (c_sigmoid_idx_factor (calculator dataset))
             grad hess)"

definition get_grad_hess ::
  "real \<Rightarrow> real \<Rightarrow> real list \<Rightarrow> real list \<Rightarrow> int list \<Rightarrow> Calculator
     \<Rightarrow> (real list \<times> real list) py_result" where
  "get_grad_hess MIN_SIGMOID_ARG MAX_SIGMOID_ARG labels preds groups calc =
     (let grad = zeros (length preds);
          hess = zeros (length preds)
      in get_gradients labels preds (int (length preds)) groups
           (c_query_boundaries calc)
           (int (length (c_query_boundaries calc)) - 1)
           (c_discounts calc)
           (c_inverse_max_dcgs calc)
           (c_sigmoids calc)
           (int (length (c_sigmoids calc)))
           MIN_SIGMOID_ARG MAX_SIGMOID_ARG
           (c_sigmoid_idx_factor calc)
           grad hess)"

text \<open>\<^verbatim>\<open>alpha * x + (1 - alpha) * y\<close> on two numpy arrays of one length.\<close>

definition blend :: "real \<Rightarrow> real list \<Rightarrow> real list \<Rightarrow> real list" where
  "blend al xs ys = map2 (\<lambda>x y. al * x + (1 - al) * y) xs ys"

definition combined_objective ::
  "real \<Rightarrow> real \<Rightarrow> real list \<Rightarrow> DatasetWithTwoLabels \<Rightarrow> (real list \<times> real list) py_result" where
  "combined_objective MIN_SIGMOID_ARG MAX_SIGMOID_ARG preds dataset =
     (let groups = get_group dataset in
      if length groups = 0 then Some (Inl NameError)
      else
        case get_grad_hess MIN_SIGMOID_ARG MAX_SIGMOID_ARG (label_1 dataset) preds groups
               (calculator_1 dataset) of
          None \<Rightarrow> None
        | Some (Inl e) \<Rightarrow> Some (Inl e)
        | Some (Inr (grad_1, hess_1)) \<Rightarrow>
            (case get_grad_hess MIN_SIGMOID_ARG MAX_SIGMOID_ARG (label_2 dataset) preds groups
                    (calculator_2 dataset) of
               None \<Rightarrow> None
             | Some (Inl e) \<Rightarrow> Some (Inl e)
             | Some (Inr (grad_2, hess_2)) \<Rightarrow>
                 Some (Inr (blend (alpha dataset) grad_1 grad_2,
                            blend (alpha dataset) hess_1 hess_2))))"

section \<open>Notions used in the statements\<close>

text \<open>
  The order that a stable descending sort establishes: the larger value first, and of two
  equal values the one with the smaller original index first.
\<close>

definition precedes :: "IndexedElement \<Rightarrow> IndexedElement \<Rightarrow> bool" where
  "precedes a b = (value a > value b \<or> (value a = value b \<and> index a < index b))"

text \<open>The content of \<^verbatim>\<open>order_struct\<close> after the first loop of \<^verbatim>\<open>argsort\<close>.\<close>

definition elems :: "real list \<Rightarrow> int \<Rightarrow> IndexedElement list" where
  "elems data n = map (\<lambda>i. \<lparr>index = i, value = data ! nat i\<rparr>) (range_upto n)"

text \<open>
  What one step of the kernel may do to the pair of output arrays, for a set \<open>S\<close> of
  positions: both lengths stay, every entry outside \<open>S\<close> stays, and the gradient entries
  keep their sum, over \<open>S\<close> and over the whole array.
\<close>

definition touches :: "nat set \<Rightarrow> real list \<times> real list \<Rightarrow> real list \<times> real list \<Rightarrow> bool" where
  "touches S s s' \<longleftrightarrow>
     length (fst s') = length (fst s) \<and> length (snd s') = length (snd s)
     \<and> (\<forall>k. k \<notin> S \<longrightarrow> fst s' ! k = fst s ! k \<and> snd s' ! k = snd s ! k)
     \<and> (\<Sum>k\<in>S. fst s' ! k) = (\<Sum>k\<in>S. fst s ! k)
     \<and> sum_list (fst s') = sum_list (fst s)"

definition same_lengths :: "real list \<times> real list \<Rightarrow> real list \<times> real list \<Rightarrow> bool" where
  "same_lengths s t \<longleftrightarrow> length (fst t) = length (fst s) \<and> length (snd t) = length (snd s)"

text \<open>
  The positions of query \<open>i\<close> in the flat arrays: from \<open>query_boundaries[i]\<close> up to, not
  including, \<open>query_boundaries[i + 1]\<close>.
\<close>

definition slice :: "int list \<Rightarrow> nat \<Rightarrow> nat set" where
  "slice query_boundaries i = {nat (query_boundaries ! i)..<nat (query_boundaries ! Suc i)}"

text \<open>
  Modelled from the spec: the calculator that builds the QueryBoundary table
  (\<^verbatim>\<open>moltr/calculator.py\<close>) is not among the sources. The table has one entry more than
  there are queries, starts at 0, is non-decreasing, and ends at the number of documents.
\<close>

definition query_boundary_table :: "int list \<Rightarrow> int \<Rightarrow> int \<Rightarrow> bool" where
  "query_boundary_table query_boundaries n_queries n_docs \<longleftrightarrow>
     int (length query_boundaries) = n_queries + 1 \<and> query_boundaries ! 0 = 0 \<and> sorted query_boundaries \<and> last query_boundaries = n_docs"

text \<open>
  Modelled from the spec: the sigmoid lookup table of the missing calculator. It has
  \<open>n_sigmoid_bins\<close> entries, at least one and no more than an \<^verbatim>\<open>int\<close> counts, over a
  span \<open>lo < hi\<close>, and the scale factor is the bin count divided by the span.
\<close>

definition sigmoid_table_ok :: "real list \<Rightarrow> int \<Rightarrow> real \<Rightarrow> real \<Rightarrow> real \<Rightarrow> bool" where
  "sigmoid_table_ok sigmoid_table n_sigmoid_bins lo hi factor \<longleftrightarrow>
     int (length sigmoid_table) = n_sigmoid_bins \<and> 1 \<le> n_sigmoid_bins \<and> n_sigmoid_bins < 2 ^ 31
     \<and> lo < hi \<and> factor = real_of_int n_sigmoid_bins / (hi - lo)"

text \<open>
  Inputs on which no array access of the kernel leaves its array. For one query: the
  query has at least one document and fewer than \<open>2^31\<close>, its documents lie inside
  \<^verbatim>\<open>gains\<close>, \<^verbatim>\<open>preds\<close>, \<^verbatim>\<open>grad\<close> and \<^verbatim>\<open>hess\<close>, and \<^verbatim>\<open>discounts\<close> has an entry
  for every position \<open>1 + rank\<close>. For a call of the kernel: this holds of every query,
  the first \<open>n_preds\<close> entries of the outputs exist, and the tables have an entry for
  every query.
\<close>

definition query_ok :: "query_args \<Rightarrow> nat \<Rightarrow> nat \<Rightarrow> bool" where
  "query_ok a grad_len hess_len \<longleftrightarrow>
     0 \<le> q_start a \<and> q_start a < q_end a \<and> q_end a - q_start a < 2 ^ 31
     \<and> q_end a \<le> int (length (q_gains a)) \<and> q_end a \<le> int (length (q_preds a))
     \<and> q_end a \<le> int grad_len \<and> q_end a \<le> int hess_len
     \<and> q_end a - q_start a < int (length (q_discounts a))
     \<and> sigmoid_table_ok (q_sigmoid_table a) (q_n_sigmoid_bins a) (q_min_sigmoid_arg a)
           (q_max_sigmoid_arg a) (q_sigmoid_idx_factor a)"

definition kernel_input_ok ::
  "real list \<Rightarrow> real list \<Rightarrow> int \<Rightarrow> int list \<Rightarrow> int \<Rightarrow> real list \<Rightarrow> real list
     \<Rightarrow> real list \<Rightarrow> int \<Rightarrow> real \<Rightarrow> real \<Rightarrow> real \<Rightarrow> real list \<Rightarrow> real list \<Rightarrow> bool" where
  "kernel_input_ok gains preds n_preds query_boundaries n_queries discounts inverse_max_dcgs
       sigmoid_table n_sigmoid_bins lo hi factor grad hess \<longleftrightarrow>
     0 \<le> n_preds \<and> n_preds \<le> int (length grad) \<and> n_preds \<le> int (length hess)
     \<and> n_queries < int (length query_boundaries)
     \<and> n_queries \<le> int (length inverse_max_dcgs)
     \<and> (\<forall>i\<in>set (range_upto n_queries).
           0 \<le> query_boundaries ! nat i
           \<and> query_boundaries ! nat i < query_boundaries ! nat (i + 1)
           \<and> query_boundaries ! nat (i + 1) - query_boundaries ! nat i < 2 ^ 31
           \<and> query_boundaries ! nat (i + 1) - query_boundaries ! nat i < int (length discounts)
           \<and> query_boundaries ! nat (i + 1) \<le> int (length gains)
           \<and> query_boundaries ! nat (i + 1) \<le> int (length preds)
           \<and> query_boundaries ! nat (i + 1) \<le> int (length grad)
           \<and> query_boundaries ! nat (i + 1) \<le> int (length hess))
     \<and> sigmoid_table_ok sigmoid_table n_sigmoid_bins lo hi factor"


text \<open>
  The quantities of lines 74 to 96 for the pair of sorted positions \<open>i\<close> (high) and
  \<open>j\<close> (low) of a query: the place of a position in the flat arrays, the test of line
  74, \<^verbatim>\<open>delta_score\<close>, the sigmoid value, \<^verbatim>\<open>abs_delta_ndcg\<close>, and the final values of
  \<^verbatim>\<open>p_lambda\<close> and \<^verbatim>\<open>p_hess\<close>; then what the pair adds to entry \<open>k\<close> of the gradient
  and of the Hessian array.
\<close>

definition position :: "query_args \<Rightarrow> int list \<Rightarrow> int \<Rightarrow> nat" where
  "position a sorted_idx r = nat (q_start a + sorted_idx ! nat r)"

definition qualifies :: "query_args \<Rightarrow> int list \<Rightarrow> int \<Rightarrow> int \<Rightarrow> bool" where
  "qualifies a sorted_idx i j \<longleftrightarrow>
     q_gains a ! position a sorted_idx i > q_gains a ! position a sorted_idx j"

definition pair_delta_score :: "query_args \<Rightarrow> int list \<Rightarrow> int \<Rightarrow> int \<Rightarrow> real" where
  "pair_delta_score a sorted_idx i j =
     q_preds a ! position a sorted_idx i - q_preds a ! position a sorted_idx j"

definition pair_p :: "query_args \<Rightarrow> int list \<Rightarrow> int \<Rightarrow> int \<Rightarrow> real" where
  "pair_p a sorted_idx i j =
     the (get_sigmoid (pair_delta_score a sorted_idx i j) (q_sigmoid_table a)
            (long_to_int (q_n_sigmoid_bins a)) (q_min_sigmoid_arg a) (q_max_sigmoid_arg a)
            (q_sigmoid_idx_factor a))"

definition pair_delta_ndcg :: "query_args \<Rightarrow> int list \<Rightarrow> bool \<Rightarrow> int \<Rightarrow> int \<Rightarrow> real" where
  "pair_delta_ndcg a sorted_idx should_adjust i j =
     \<bar>q_discounts a ! nat (1 + j) - q_discounts a ! nat (1 + i)\<bar>
       * (q_gains a ! position a sorted_idx i - q_gains a ! position a sorted_idx j)
       * q_inverse_max_dcg a
       / (if should_adjust then 0.01 + \<bar>pair_delta_score a sorted_idx i j\<bar> else 1)"

definition pair_lambda :: "query_args \<Rightarrow> int list \<Rightarrow> bool \<Rightarrow> int \<Rightarrow> int \<Rightarrow> real" where
  "pair_lambda a sorted_idx should_adjust i j =
     - pair_p a sorted_idx i j * pair_delta_ndcg a sorted_idx should_adjust i j"

definition pair_hess_term :: "query_args \<Rightarrow> int list \<Rightarrow> bool \<Rightarrow> int \<Rightarrow> int \<Rightarrow> real" where
  "pair_hess_term a sorted_idx should_adjust i j =
     pair_p a sorted_idx i j * (2 - pair_p a sorted_idx i j) * 2
       * pair_delta_ndcg a sorted_idx should_adjust i j"

definition grad_effect :: "query_args \<Rightarrow> int list \<Rightarrow> bool \<Rightarrow> nat \<Rightarrow> int \<Rightarrow> int \<Rightarrow> real" where
  "grad_effect a sorted_idx should_adjust k i j =
     (if qualifies a sorted_idx i j
      then (if k = position a sorted_idx i then pair_lambda a sorted_idx should_adjust i j else 0)
         - (if k = position a sorted_idx j then pair_lambda a sorted_idx should_adjust i j else 0)
      else 0)"

definition hess_effect :: "query_args \<Rightarrow> int list \<Rightarrow> bool \<Rightarrow> nat \<Rightarrow> int \<Rightarrow> int \<Rightarrow> real" where
  "hess_effect a sorted_idx should_adjust k i j =
     (if qualifies a sorted_idx i j
      then (if k = position a sorted_idx i then pair_hess_term a sorted_idx should_adjust i j else 0)
         + (if k = position a sorted_idx j then pair_hess_term a sorted_idx should_adjust i j else 0)
      else 0)"


definition example_calculator :: Calculator where
  "example_calculator = \<lparr>c_query_boundaries = [0, 2], c_discounts = [1, 63 / 100, 1 / 2],
     c_inverse_max_dcgs = [1], c_sigmoids = [1 / 2], c_sigmoid_idx_factor = 1 / 100\<rparr>"

definition example_dataset :: DatasetWithCalculator where
  "example_dataset = \<lparr>label = [1, 0], get_group = [2], calculator = example_calculator\<rparr>"

definition example_two_labels :: DatasetWithTwoLabels where
  "example_two_labels = \<lparr>label = [1, 0], get_group = [2], label_2 = [0, 1],
     calculator_1 = example_calculator, calculator_2 = example_calculator, alpha = 1 / 4\<rparr>"

section \<open>The sort utility: a stable descending permutation\<close>

lemma those_map_Some:
  "(\<And>x. x \<in> set xs \<Longrightarrow> g x = Some (h x)) \<Longrightarrow> those (map g xs) = Some (map h xs)"
  by (induction xs) auto

lemma those_map_None: "x \<in> set xs \<Longrightarrow> g x = None \<Longrightarrow> those (map g xs) = None"
  by (induction xs) (auto split: option.splits)

lemma set_stable_insert: "set (stable_insert lt x ys) = insert x (set ys)"
  by (induction ys) auto

lemma length_stable_insert: "length (stable_insert lt x ys) = Suc (length ys)"
  by (induction ys) auto

lemma mset_stable_insert: "mset (stable_insert lt x ys) = add_mset x (mset ys)"
  by (induction ys) auto

lemma mset_stable_sort: "mset (stable_sort lt xs) = mset xs"
  by (induction xs) (auto simp: mset_stable_insert)

lemma length_stable_sort: "length (stable_sort lt xs) = length xs"
  by (induction xs) (auto simp: length_stable_insert)

lemma set_stable_sort: "set (stable_sort lt xs) = set xs"
  by (induction xs) (auto simp: set_stable_insert)

text \<open>
  Inserting an element whose index is below all others keeps the list ordered by
  \<open>precedes\<close>: it stops in front of the first element that is not strictly larger.
\<close>

lemma sorted_stable_insert:
  "sorted_wrt precedes ys \<Longrightarrow> (\<forall>y\<in>set ys. index x < index y)
     \<Longrightarrow> sorted_wrt precedes (stable_insert cmp x ys)"
proof (induction ys)
  case Nil
  then show ?case by simp
next
  case (Cons y ys)
  show ?case
  proof (cases "cmp y x")
    case True
    then show ?thesis using Cons by (auto simp: set_stable_insert precedes_def cmp_def)
  next
    case False
    then show ?thesis using Cons by (fastforce simp: precedes_def cmp_def)
  qed
qed

lemma sorted_stable_sort:
  "sorted_wrt (\<lambda>a b. index a < index b) xs \<Longrightarrow> sorted_wrt precedes (stable_sort cmp xs)"
  by (induction xs) (auto simp: sorted_stable_insert set_stable_sort)

lemma stable_insert_id: "\<forall>y\<in>set ys. \<not> lt y x \<Longrightarrow> stable_insert lt x ys = x # ys"
  by (cases ys) auto

lemma stable_sort_id: "sorted_wrt (\<lambda>a b. \<not> lt b a) xs \<Longrightarrow> stable_sort lt xs = xs"
  by (induction xs) (auto simp: stable_insert_id)

lemma map_nth_range: "map (\<lambda>i. f (xs ! nat i)) (range_upto (int (length xs))) = map f xs"
  by (rule nth_equalityI) (auto simp: range_upto_def)

lemma length_elems: "length (elems data n) = nat n"
  by (simp add: elems_def range_upto_def)

lemma elems_nth: "i < nat n \<Longrightarrow> elems data n ! i = \<lparr>index = int i, value = data ! i\<rparr>"
  by (simp add: elems_def range_upto_def)

lemma elems_index_sorted: "sorted_wrt (\<lambda>a b. index a < index b) (elems data n)"
  by (simp add: elems_def sorted_wrt_map range_upto_def)

lemma elems_member:
  "e \<in> set (elems data n) \<Longrightarrow> 0 \<le> index e \<and> index e < n \<and> value e = data ! nat (index e)"
  by (auto simp: elems_def range_upto_def)

lemma map_index_elems: "map index (elems data n) = range_upto n"
  by (simp add: elems_def comp_def)

lemma argsort_eq:
  assumes "0 \<le> n" "n \<le> int (length data)"
  shows "argsort data n = Some (map index (stable_sort cmp (elems data n)))"
proof -
  have "those (map (\<lambda>i. map_option (\<lambda>v. \<lparr>index = i, value = v\<rparr>) (rd data i)) (range_upto n))
        = Some (elems data n)"
    unfolding elems_def using assms
    by (intro those_map_Some) (auto simp: rd_def range_upto_def)
  moreover have "length (stable_sort cmp (elems data n)) = nat n"
    by (simp add: length_stable_sort length_elems)
  then have "map (\<lambda>i. index (stable_sort cmp (elems data n) ! nat i)) (range_upto n)
        = map index (stable_sort cmp (elems data n))"
    using map_nth_range[of index "stable_sort cmp (elems data n)"] assms by simp
  ultimately show ?thesis using assms by (simp add: argsort_def)
qed

lemma argsort_None:
  assumes "n < 0 \<or> int (length data) < n"
  shows "argsort data n = None"
proof (cases "n < 0")
  case True
  then show ?thesis by (simp add: argsort_def)
next
  case False
  with assms have *: "int (length data) < n" by simp
  have "those (map (\<lambda>i. map_option (\<lambda>v. \<lparr>index = i, value = v\<rparr>) (rd data i)) (range_upto n))
          = None"
    by (rule those_map_None[where x = "int (length data)"])
       (use * in \<open>auto simp: range_upto_def rd_def\<close>)
  then show ?thesis by (simp add: argsort_def)
qed

lemma elems_descending:
  assumes "n \<le> int (length data)" "sorted_wrt (\<ge>) (take (nat n) data)"
  shows "sorted_wrt (\<lambda>a b. \<not> cmp b a) (elems data n)"
proof -
  have "data ! j \<le> data ! i" if "i < j" "j < nat n" for i j
  proof -
    have "take (nat n) data ! j \<le> take (nat n) data ! i"
      using assms that by (simp add: sorted_wrt_iff_nth_less)
    then show ?thesis using that by simp
  qed
  then show ?thesis
    by (simp add: sorted_wrt_iff_nth_less length_elems elems_nth cmp_def not_less)
qed

lemma argsort_sorted:
  assumes "0 \<le> n" "n \<le> int (length data)"
  obtains os where "argsort data n = Some (map index os)" "length os = nat n"
    "mset os = mset (elems data n)" "sorted_wrt precedes os"
proof
  show "argsort data n = Some (map index (stable_sort cmp (elems data n)))"
    using assms by (rule argsort_eq)
  show "length (stable_sort cmp (elems data n)) = nat n"
    by (simp add: length_stable_sort length_elems)
  show "mset (stable_sort cmp (elems data n)) = mset (elems data n)"
    by (rule mset_stable_sort)
  show "sorted_wrt precedes (stable_sort cmp (elems data n))"
    by (rule sorted_stable_sort) (rule elems_index_sorted)
qed

text \<open>
  Claim C4. For an array holding at least \<open>n \<ge> 0\<close> scores, \<open>argsort\<close> returns a
  permutation of the indices \<open>0..n-1\<close>; reading the scores through it gives a
  non-increasing sequence; two equal scores keep their original index order; an input
  that is already non-increasing gives the identity permutation. For \<open>[3, 1, 3]\<close> the
  result is \<open>[0, 2, 1]\<close>: index 0 comes before index 2.
\<close>

theorem argsort_stable_descending:
  "(0 \<le> n \<and> n \<le> int (length data) \<longrightarrow>
      (\<exists>idx. argsort data n = Some idx \<and> length idx = nat n
         \<and> mset idx = mset [0..n - 1]
         \<and> (\<forall>i j. i < j \<and> j < nat n \<longrightarrow> data ! nat (idx ! i) \<ge> data ! nat (idx ! j))
         \<and> (\<forall>i j. i < j \<and> j < nat n \<and> data ! nat (idx ! i) = data ! nat (idx ! j)
                \<longrightarrow> idx ! i < idx ! j)
         \<and> (sorted_wrt (\<ge>) (take (nat n) data) \<longrightarrow> idx = [0..n - 1])))
   \<and> argsort [3, 1, 3] 3 = Some [0, 2, 1]"
proof (intro conjI impI)
  assume a: "0 \<le> n \<and> n \<le> int (length data)"
  then obtain os where os: "argsort data n = Some (map index os)" "length os = nat n"
    "mset os = mset (elems data n)" "sorted_wrt precedes os"
    using argsort_sorted by blast
  have mem: "\<And>e. e \<in> set os \<Longrightarrow> value e = data ! nat (index e)"
    using os(3) elems_member by (metis set_mset_mset)
  have pre: "\<And>i j. i < j \<Longrightarrow> j < nat n \<Longrightarrow> precedes (os ! i) (os ! j)"
    using os(2,4) by (simp add: sorted_wrt_nth_less)
  have val: "\<And>i. i < nat n \<Longrightarrow> data ! nat (map index os ! i) = value (os ! i)"
    using os(2) mem by simp
  have "mset (map index os) = mset [0..n - 1]"
    using os(3) map_index_elems[of data n] by (metis mset_map range_upto_def)
  moreover have "\<forall>i j. i < j \<and> j < nat n
      \<longrightarrow> data ! nat (map index os ! i) \<ge> data ! nat (map index os ! j)"
    using pre val by (fastforce simp: precedes_def)
  moreover have "\<forall>i j. i < j \<and> j < nat n
      \<and> data ! nat (map index os ! i) = data ! nat (map index os ! j)
      \<longrightarrow> map index os ! i < map index os ! j"
    using pre val os(2) by (fastforce simp: precedes_def)
  moreover have "sorted_wrt (\<ge>) (take (nat n) data) \<longrightarrow> map index os = [0..n - 1]"
  proof
    assume s: "sorted_wrt (\<ge>) (take (nat n) data)"
    have "sorted_wrt (\<lambda>a b. \<not> cmp b a) (elems data n)"
      using a s by (simp add: elems_descending)
    then have "stable_sort cmp (elems data n) = elems data n" by (rule stable_sort_id)
    then show "map index os = [0..n - 1]"
      using argsort_eq[of n data] a os(1) map_index_elems[of data n] by (simp add: range_upto_def)
  qed
  ultimately show "\<exists>idx. argsort data n = Some idx \<and> length idx = nat n
         \<and> mset idx = mset [0..n - 1]
         \<and> (\<forall>i j. i < j \<and> j < nat n \<longrightarrow> data ! nat (idx ! i) \<ge> data ! nat (idx ! j))
         \<and> (\<forall>i j. i < j \<and> j < nat n \<and> data ! nat (idx ! i) = data ! nat (idx ! j)
                \<longrightarrow> idx ! i < idx ! j)
         \<and> (sorted_wrt (\<ge>) (take (nat n) data) \<longrightarrow> idx = [0..n - 1])"
    using os(1,2) by auto
next
  show "argsort [3, 1, 3] 3 = Some [0, 2, 1]" by code_simp
qed

theorem argsort_stable_descending_witness:
  "\<exists>idx. argsort [2, 5, 2, 7] 4 = Some idx \<and> idx = [3, 1, 0, 2] \<and> mset idx = mset [0..3]
     \<and> (\<forall>i j. i < j \<and> j < 4 \<longrightarrow> [2, 5, 2, 7 :: real] ! nat (idx ! i) \<ge> [2, 5, 2, 7] ! nat (idx ! j))"
proof -
  have e: "argsort [2, 5, 2, 7] 4 = Some [3, 1, 0, 2]" by code_simp
  have h: "(0::int) \<le> 4 \<and> 4 \<le> int (length [2, 5, 2, 7 :: real])" by simp
  from argsort_stable_descending[of 4 "[2, 5, 2, 7]"] h
  obtain idx where "argsort [2, 5, 2, 7] 4 = Some idx" "mset idx = mset [0..4 - 1]"
    "\<forall>i j. i < j \<and> j < nat 4 \<longrightarrow> [2, 5, 2, 7 :: real] ! nat (idx ! i) \<ge> [2, 5, 2, 7] ! nat (idx ! j)"
    by blast
  with e show ?thesis by simp
qed

text \<open>
  Claim C5, as stated: every \<open>n \<le> 0\<close> gives an empty result. At \<open>n = -1\<close> the scratch
  allocation \<^verbatim>\<open>new IndexedElement[n]\<close> fails and there is no result.
\<close>

theorem argsort_negative_counterexample: "argsort [] (- 1) \<noteq> Some []"
  by (simp add: argsort_def)

text \<open>
  Claim C5, amended. \<open>n = 0\<close> gives the empty result; a negative count gives no result;
  every count from \<open>0\<close> up to the number of scores supplied gives a result of that many
  indices, so for an array of \<open>n \<ge> 0\<close> scores the utility always returns.
\<close>

theorem argsort_total:
  "argsort data 0 = Some []
   \<and> (m < 0 \<longrightarrow> argsort data m = None)
   \<and> (0 \<le> n \<and> n \<le> int (length data) \<longrightarrow> (\<exists>idx. argsort data n = Some idx \<and> length idx = nat n))"
proof (intro conjI impI)
  show "argsort data 0 = Some []" by (simp add: argsort_def range_upto_def)
  show "argsort data m = None" if "m < 0" using that by (simp add: argsort_def)
  show "\<exists>idx. argsort data n = Some idx \<and> length idx = nat n"
    if "0 \<le> n \<and> n \<le> int (length data)"
    using that argsort_eq[of n data] by (simp add: length_stable_sort length_elems)
qed

theorem argsort_total_witness:
  "argsort [4, 9] 0 = Some [] \<and> argsort [4, 9] (- 3) = None
   \<and> (\<exists>idx. argsort [4, 9] 2 = Some idx \<and> length idx = 2)"
  using argsort_total[of "[4, 9]" "- 3" 2] by simp

section \<open>The sigmoid lookup: clamped and in bounds\<close>

lemma double_to_int_nonneg:
  "0 \<le> x \<Longrightarrow> \<lfloor>x\<rfloor> < 2 ^ 31 \<Longrightarrow> double_to_int x = Some \<lfloor>x\<rfloor>"
  by (simp add: double_to_int_def)

lemma scaled_in_range:
  fixes lo hi score :: real and n :: int
  assumes "lo < hi" "1 \<le> n" "lo < score" "score < hi"
  shows "0 \<le> (score - lo) * (real_of_int n / (hi - lo))"
    and "(score - lo) * (real_of_int n / (hi - lo)) < real_of_int n"
proof -
  have d: "0 < hi - lo" using assms by simp
  show "0 \<le> (score - lo) * (real_of_int n / (hi - lo))"
    using assms by (simp add: divide_nonneg_pos)
  have "(score - lo) / (hi - lo) < 1" using assms d by simp
  then have "(score - lo) / (hi - lo) * real_of_int n < 1 * real_of_int n"
    using assms(2) by (intro mult_strict_right_mono) auto
  then show "(score - lo) * (real_of_int n / (hi - lo)) < real_of_int n" by simp
qed

lemma sigmoid_idx_cases:
  assumes "lo < hi" "1 \<le> n" "n < 2 ^ 31" "factor = real_of_int n / (hi - lo)"
  shows "sigmoid_idx score n lo hi factor =
           Some (if score \<le> lo then 0 else if score \<ge> hi then n - 1
                 else \<lfloor>(score - lo) * factor\<rfloor>)"
    and "lo < score \<Longrightarrow> score < hi \<Longrightarrow> 0 \<le> \<lfloor>(score - lo) * factor\<rfloor> \<and> \<lfloor>(score - lo) * factor\<rfloor> \<le> n - 1"
proof -
  have r: "0 \<le> \<lfloor>(score - lo) * factor\<rfloor> \<and> \<lfloor>(score - lo) * factor\<rfloor> \<le> n - 1"
    if "lo < score" "score < hi"
    using scaled_in_range[OF assms(1,2) that] assms(4)
    by (simp add: floor_less_iff)
  show "lo < score \<Longrightarrow> score < hi \<Longrightarrow> 0 \<le> \<lfloor>(score - lo) * factor\<rfloor> \<and> \<lfloor>(score - lo) * factor\<rfloor> \<le> n - 1"
    using r by simp
  show "sigmoid_idx score n lo hi factor =
           Some (if score \<le> lo then 0 else if score \<ge> hi then n - 1
                 else \<lfloor>(score - lo) * factor\<rfloor>)"
  proof (cases "lo < score \<and> score < hi")
    case True
    then have "0 \<le> (score - lo) * factor"
      using scaled_in_range(1)[OF assms(1,2)] assms(4) by simp
    moreover have "\<lfloor>(score - lo) * factor\<rfloor> < 2 ^ 31" using r True assms(3) by linarith
    ultimately show ?thesis using True by (simp add: sigmoid_idx_def double_to_int_nonneg)
  next
    case False
    then show ?thesis by (auto simp: sigmoid_idx_def)
  qed
qed





section \<open>Array accesses and loops\<close>

lemma rd_Some_iff: "rd a i = Some v \<longleftrightarrow> 0 \<le> i \<and> i < int (length a) \<and> v = a ! nat i"
  by (auto simp: rd_def)

lemma wr_Some_iff: "wr a i v = Some b \<longleftrightarrow> 0 \<le> i \<and> i < int (length a) \<and> b = a[nat i := v]"
  by (auto simp: wr_def)

lemma rd_in_set: "rd xs i = Some v \<Longrightarrow> v \<in> set xs"
  by (auto simp: rd_Some_iff)

lemma for_each_rel:
  assumes "for_each xs body s = Some s'"
    and "\<And>s. R s s" and "\<And>s t u. R s t \<Longrightarrow> R t u \<Longrightarrow> R s u"
    and "\<And>x t t'. x \<in> set xs \<Longrightarrow> body x t = Some t' \<Longrightarrow> R t t'"
  shows "R s s'"
  using assms(1,4)
proof (induction xs arbitrary: s)
  case Nil
  then show ?case using assms(2) by simp
next
  case (Cons x xs)
  then obtain t where t: "body x s = Some t" "for_each xs body t = Some s'"
    by (auto split: option.splits)
  have "R s t" using Cons.prems(2)[of x s t] t(1) by simp
  moreover have "R t s'" by (rule Cons.IH[OF t(2)]) (use Cons.prems(2) in auto)
  ultimately show ?case using assms(3) by blast
qed

lemma for_each_total:
  assumes "P s" and "\<And>x t. x \<in> set xs \<Longrightarrow> P t \<Longrightarrow> \<exists>t'. body x t = Some t' \<and> P t'"
  shows "\<exists>s'. for_each xs body s = Some s' \<and> P s'"
  using assms
proof (induction xs arbitrary: s)
  case Nil
  then show ?case by simp
next
  case (Cons x xs)
  then obtain t where t: "body x s = Some t" "P t" by (meson list.set_intros(1))
  then obtain s' where "for_each xs body t = Some s' \<and> P s'"
    using Cons.IH[of t] Cons.prems(2) by (meson list.set_intros(2))
  then show ?case using t by simp
qed

lemma long_to_int_le: "0 \<le> d \<Longrightarrow> long_to_int d \<le> d"
proof -
  assume "0 \<le> d"
  then have "take_bit 32 d \<le> d" by (simp add: take_bit_int_less_eq_self_iff)
  moreover have "long_to_int d \<le> take_bit 32 d"
    by (simp add: long_to_int_def signed_take_bit_eq_take_bit_minus)
  ultimately show ?thesis by simp
qed

lemma long_to_int_id: "0 \<le> d \<Longrightarrow> d < 2 ^ 31 \<Longrightarrow> long_to_int d = d"
  by (simp add: long_to_int_def signed_take_bit_int_eq_self)

lemma argsort_Some:
  assumes "argsort data n = Some idx"
  shows "0 \<le> n" "n \<le> int (length data)" "length idx = nat n" "set idx = {0..<n}"
proof -
  show n: "0 \<le> n" "n \<le> int (length data)"
    using assms argsort_None[of n data] by force+
  then obtain os where os: "argsort data n = Some (map index os)" "length os = nat n"
    "mset os = mset (elems data n)"
    using argsort_sorted by blast
  then show "length idx = nat n" using assms by auto
  have "set (map index os) = index ` set_mset (mset os)" by simp
  also have "\<dots> = set (map index (elems data n))" unfolding os(3) by simp
  also have "\<dots> = {0..<n}" by (auto simp: map_index_elems range_upto_def)
  finally show "set idx = {0..<n}" using os(1) assms by simp
qed

section \<open>One pair of documents\<close>

lemma inner_body_reads:
  assumes "inner_body a sorted_idx should_adjust i high gain_high score_high j (grad, hess)
             = Some (grad', hess')"
  shows "\<exists>low gain_low score_low. rd sorted_idx j = Some low
    \<and> rd (q_gains a) (q_start a + low) = Some gain_low
    \<and> rd (q_preds a) (q_start a + low) = Some score_low
    \<and> (gain_high > gain_low \<longrightarrow>
         (\<exists>p. get_sigmoid (score_high - score_low) (q_sigmoid_table a)
                 (long_to_int (q_n_sigmoid_bins a)) (q_min_sigmoid_arg a) (q_max_sigmoid_arg a)
                 (q_sigmoid_idx_factor a) = Some p)
         \<and> 0 \<le> 1 + i \<and> 1 + i < int (length (q_discounts a))
         \<and> 0 \<le> 1 + j \<and> 1 + j < int (length (q_discounts a))
         \<and> 0 \<le> q_start a + high \<and> q_start a + high < int (length grad)
         \<and> q_start a + high < int (length hess)
         \<and> 0 \<le> q_start a + low \<and> q_start a + low < int (length grad)
         \<and> q_start a + low < int (length hess))"
  using assms
  apply (simp add: inner_body_def bind_eq_Some_conv Let_def rd_Some_iff wr_Some_iff split: if_splits)
   apply blast
  apply blast
  done

lemma inner_body_code:
  assumes "rd sorted_idx j = Some low"
    and "rd (q_gains a) (q_start a + low) = Some gain_low"
    and "rd (q_preds a) (q_start a + low) = Some score_low"
    and "get_sigmoid (score_high - score_low) (q_sigmoid_table a) (long_to_int (q_n_sigmoid_bins a))
           (q_min_sigmoid_arg a) (q_max_sigmoid_arg a) (q_sigmoid_idx_factor a) = Some p"
    and "0 \<le> 1 + i" "1 + i < int (length (q_discounts a))"
    and "0 \<le> 1 + j" "1 + j < int (length (q_discounts a))"
    and "0 \<le> q_start a + high" "q_start a + high < int (length grad)"
        "q_start a + high < int (length hess)"
    and "0 \<le> q_start a + low" "q_start a + low < int (length grad)"
        "q_start a + low < int (length hess)"
    and "gain_high > gain_low"
    and "d0 = (gain_high - gain_low) * \<bar>q_discounts a ! nat (1 + j) - q_discounts a ! nat (1 + i)\<bar>
                * q_inverse_max_dcg a"
    and "d = (if should_adjust then d0 / (0.01 + \<bar>score_high - score_low\<bar>) else d0)"
    and "h = nat (q_start a + high)" "l = nat (q_start a + low)"
  shows "inner_body a sorted_idx should_adjust i high gain_high score_high j (grad, hess) =
      Some (grad[h := grad ! h + p * (- d), l := grad[h := grad ! h + p * (- d)] ! l - p * (- d)],
            hess[h := hess ! h + p * (2 - p) * (2 * d),
                 l := hess[h := hess ! h + p * (2 - p) * (2 * d)] ! l + p * (2 - p) * (2 * d)])"
  using assms
  by (simp add: inner_body_def rd_def wr_def Let_def del: mult_minus_right)

lemma inner_body_shape:
  assumes "inner_body a sorted_idx should_adjust i high gain_high score_high j (grad, hess)
             = Some (grad', hess')"
  shows "\<exists>low gain_low. rd sorted_idx j = Some low \<and>
    rd (q_gains a) (q_start a + low) = Some gain_low \<and>
    (\<not> gain_high > gain_low \<longrightarrow> grad' = grad \<and> hess' = hess) \<and>
    (gain_high > gain_low \<longrightarrow> (\<exists>v w h l. h = nat (q_start a + high) \<and> l = nat (q_start a + low)
        \<and> 0 \<le> q_start a + high \<and> 0 \<le> q_start a + low
        \<and> h < length grad \<and> l < length grad \<and> h < length hess \<and> l < length hess
        \<and> grad' = grad[h := grad ! h + v, l := grad[h := grad ! h + v] ! l - v]
        \<and> hess' = hess[h := hess ! h + w, l := hess[h := hess ! h + w] ! l + w]))"
proof -
  from inner_body_reads[OF assms] obtain low gain_low score_low where
    r: "rd sorted_idx j = Some low" "rd (q_gains a) (q_start a + low) = Some gain_low"
       "rd (q_preds a) (q_start a + low) = Some score_low"
    and q: "gain_high > gain_low \<Longrightarrow>
         (\<exists>p. get_sigmoid (score_high - score_low) (q_sigmoid_table a)
                 (long_to_int (q_n_sigmoid_bins a)) (q_min_sigmoid_arg a) (q_max_sigmoid_arg a)
                 (q_sigmoid_idx_factor a) = Some p)
         \<and> 0 \<le> 1 + i \<and> 1 + i < int (length (q_discounts a))
         \<and> 0 \<le> 1 + j \<and> 1 + j < int (length (q_discounts a))
         \<and> 0 \<le> q_start a + high \<and> q_start a + high < int (length grad)
         \<and> q_start a + high < int (length hess)
         \<and> 0 \<le> q_start a + low \<and> q_start a + low < int (length grad)
         \<and> q_start a + low < int (length hess)"
    by blast
  have "grad' = grad \<and> hess' = hess" if "\<not> gain_high > gain_low"
    using assms r that by (simp add: inner_body_def)
  moreover have "\<exists>v w h l. h = nat (q_start a + high) \<and> l = nat (q_start a + low)
        \<and> 0 \<le> q_start a + high \<and> 0 \<le> q_start a + low
        \<and> h < length grad \<and> l < length grad \<and> h < length hess \<and> l < length hess
        \<and> grad' = grad[h := grad ! h + v, l := grad[h := grad ! h + v] ! l - v]
        \<and> hess' = hess[h := hess ! h + w, l := hess[h := hess ! h + w] ! l + w]"
    if t: "gain_high > gain_low"
  proof -
    from q[OF t] obtain p where p: "get_sigmoid (score_high - score_low) (q_sigmoid_table a)
                 (long_to_int (q_n_sigmoid_bins a)) (q_min_sigmoid_arg a) (q_max_sigmoid_arg a)
                 (q_sigmoid_idx_factor a) = Some p" by blast
    have b: "0 \<le> 1 + i" "1 + i < int (length (q_discounts a))"
         "0 \<le> 1 + j" "1 + j < int (length (q_discounts a))"
         "0 \<le> q_start a + high" "q_start a + high < int (length grad)"
         "q_start a + high < int (length hess)"
         "0 \<le> q_start a + low" "q_start a + low < int (length grad)"
         "q_start a + low < int (length hess)"
      using q[OF t] by simp_all
    note c = inner_body_code[OF r p b t refl refl refl refl, of should_adjust]
    have "\<exists>v w. inner_body a sorted_idx should_adjust i high gain_high score_high j (grad, hess) =
        Some (grad[nat (q_start a + high) := grad ! nat (q_start a + high) + v,
                   nat (q_start a + low) :=
                     grad[nat (q_start a + high) := grad ! nat (q_start a + high) + v]
                       ! nat (q_start a + low) - v],
              hess[nat (q_start a + high) := hess ! nat (q_start a + high) + w,
                   nat (q_start a + low) :=
                     hess[nat (q_start a + high) := hess ! nat (q_start a + high) + w]
                       ! nat (q_start a + low) + w])"
      by (rule exI, rule exI, rule c)
    then obtain v w where
      "grad' = grad[nat (q_start a + high) := grad ! nat (q_start a + high) + v,
                   nat (q_start a + low) :=
                     grad[nat (q_start a + high) := grad ! nat (q_start a + high) + v]
                       ! nat (q_start a + low) - v]"
      "hess' = hess[nat (q_start a + high) := hess ! nat (q_start a + high) + w,
                   nat (q_start a + low) :=
                     hess[nat (q_start a + high) := hess ! nat (q_start a + high) + w]
                       ! nat (q_start a + low) + w]"
      using assms by auto
    then show ?thesis using b
      by (intro exI[where x = v] exI[where x = w]) (simp add: nat_less_iff)
  qed
  ultimately show ?thesis using r by blast
qed




section \<open>The effect of one query\<close>

lemma touches_refl: "touches S s s"
  by (simp add: touches_def)

lemma touches_trans: "touches S s t \<Longrightarrow> touches S t u \<Longrightarrow> touches S s u"
  by (simp add: touches_def)

lemma sum_two_updates:
  fixes g :: "real list"
  assumes "finite S" "h \<in> S" "l \<in> S" "h < length g" "l < length g"
  shows "(\<Sum>k\<in>S. g[h := g ! h + v, l := g[h := g ! h + v] ! l - v] ! k) = (\<Sum>k\<in>S. g ! k)"
proof -
  have "g[h := g ! h + v, l := g[h := g ! h + v] ! l - v] ! k
          = g ! k + (if k = h then v else 0) - (if k = l then v else 0)" for k
    using assms(4,5) by (auto simp: nth_list_update)
  then have "(\<Sum>k\<in>S. g[h := g ! h + v, l := g[h := g ! h + v] ! l - v] ! k)
          = (\<Sum>k\<in>S. g ! k + (if k = h then v else 0) - (if k = l then v else 0))"
    by simp
  also have "\<dots> = (\<Sum>k\<in>S. g ! k) + (\<Sum>k\<in>S. if k = h then v else 0) - (\<Sum>k\<in>S. if k = l then v else 0)"
    by (simp add: sum.distrib sum_subtractf)
  also have "\<dots> = (\<Sum>k\<in>S. g ! k)" using assms(1,2,3) by simp
  finally show ?thesis .
qed

lemma sum_list_two_updates:
  fixes g :: "real list"
  assumes "h < length g" "l < length g"
  shows "sum_list (g[h := g ! h + v, l := g[h := g ! h + v] ! l - v]) = sum_list g"
  using sum_two_updates[of "{0..<length g}" h l g v] assms
  by (simp add: sum_list_sum_nth)

lemma inner_body_touches:
  assumes "inner_body a sorted_idx should_adjust i high gain_high score_high j (grad, hess)
             = Some (grad', hess')"
    and "finite S" "nat (q_start a + high) \<in> S"
    and "\<And>low. rd sorted_idx j = Some low \<Longrightarrow> nat (q_start a + low) \<in> S"
  shows "touches S (grad, hess) (grad', hess')"
proof -
  from inner_body_shape[OF assms(1)] obtain low gain_low where
    r: "rd sorted_idx j = Some low"
    and n: "\<not> gain_high > gain_low \<Longrightarrow> grad' = grad \<and> hess' = hess"
    and y: "gain_high > gain_low \<Longrightarrow> \<exists>v w h l. h = nat (q_start a + high) \<and> l = nat (q_start a + low)
        \<and> 0 \<le> q_start a + high \<and> 0 \<le> q_start a + low
        \<and> h < length grad \<and> l < length grad \<and> h < length hess \<and> l < length hess
        \<and> grad' = grad[h := grad ! h + v, l := grad[h := grad ! h + v] ! l - v]
        \<and> hess' = hess[h := hess ! h + w, l := hess[h := hess ! h + w] ! l + w]"
    by blast
  show ?thesis
  proof (cases "gain_high > gain_low")
    case False
    then show ?thesis using n by (simp add: touches_refl)
  next
    case True
    from y[OF True] obtain v w h l where
      hl: "h = nat (q_start a + high)" "l = nat (q_start a + low)"
          "h < length grad" "l < length grad"
      and g: "grad' = grad[h := grad ! h + v, l := grad[h := grad ! h + v] ! l - v]"
      and h: "hess' = hess[h := hess ! h + w, l := hess[h := hess ! h + w] ! l + w]"
      by blast
    have mem: "h \<in> S" "l \<in> S" using hl assms(3) assms(4)[OF r] by simp_all
    have "(\<Sum>k\<in>S. grad' ! k) = (\<Sum>k\<in>S. grad ! k)"
      unfolding g using assms(2) mem hl(3,4) by (rule sum_two_updates)
    moreover have "sum_list grad' = sum_list grad"
      unfolding g using hl(3,4) by (rule sum_list_two_updates)
    moreover have "grad' ! k = grad ! k \<and> hess' ! k = hess ! k" if "k \<notin> S" for k
    proof -
      have "h \<noteq> k" "l \<noteq> k" using mem that by auto
      then show ?thesis unfolding g h by simp
    qed
    ultimately show ?thesis unfolding g h by (simp add: touches_def)
  qed
qed

lemma inner_body_same_gain:
  assumes "inner_body a sorted_idx should_adjust i high gain_high score_high j (grad, hess)
             = Some (grad', hess')"
    and "\<And>low gain_low. rd sorted_idx j = Some low
           \<Longrightarrow> rd (q_gains a) (q_start a + low) = Some gain_low \<Longrightarrow> gain_low = gain_high"
  shows "(grad', hess') = (grad, hess)"
  using inner_body_shape[OF assms(1)] assms(2) by fastforce

lemma outer_body_touches:
  assumes "outer_body a sorted_idx should_adjust cnt i gh = Some gh'"
    and "finite S" "\<And>x. x \<in> set sorted_idx \<Longrightarrow> nat (q_start a + x) \<in> S"
  shows "touches S gh gh'"
proof -
  from assms(1) obtain high gain_high score_high where
    h: "rd sorted_idx i = Some high"
    and f: "for_each (range_upto cnt)
              (inner_body a sorted_idx should_adjust i high gain_high score_high) gh = Some gh'"
    by (auto simp: outer_body_def bind_eq_Some_conv)
  show ?thesis using f
  proof (rule for_each_rel)
    fix j t t'
    assume "inner_body a sorted_idx should_adjust i high gain_high score_high j t = Some t'"
    then have "inner_body a sorted_idx should_adjust i high gain_high score_high j (fst t, snd t)
                 = Some (fst t', snd t')" by simp
    then have "touches S (fst t, snd t) (fst t', snd t')"
    proof (rule inner_body_touches)
      show "nat (q_start a + high) \<in> S" using assms(3) rd_in_set[OF h] by simp
      show "nat (q_start a + low) \<in> S" if "rd sorted_idx j = Some low" for low
        using assms(3) rd_in_set[OF that] by simp
    qed (rule assms(2))
    then show "touches S t t'" by simp
  qed (auto intro: touches_refl touches_trans)
qed

lemma outer_body_same_gain:
  assumes "outer_body a sorted_idx should_adjust cnt i gh = Some gh'"
    and "\<And>x y. x \<in> set sorted_idx \<Longrightarrow> y \<in> set sorted_idx
           \<Longrightarrow> q_gains a ! nat (q_start a + x) = q_gains a ! nat (q_start a + y)"
  shows "gh' = gh"
proof -
  from assms(1) obtain high gain_high score_high where
    h: "rd sorted_idx i = Some high" "rd (q_gains a) (q_start a + high) = Some gain_high"
    and f: "for_each (range_upto cnt)
              (inner_body a sorted_idx should_adjust i high gain_high score_high) gh = Some gh'"
    by (auto simp: outer_body_def bind_eq_Some_conv)
  have "(\<lambda>s s'. s' = s) gh gh'" using f
  proof (rule for_each_rel)
    fix j t t'
    assume b: "inner_body a sorted_idx should_adjust i high gain_high score_high j t = Some t'"
    have "(fst t', snd t') = (fst t, snd t)"
    proof (rule inner_body_same_gain)
      show "inner_body a sorted_idx should_adjust i high gain_high score_high j (fst t, snd t)
              = Some (fst t', snd t')" using b by simp
      fix low gain_low
      assume "rd sorted_idx j = Some low" "rd (q_gains a) (q_start a + low) = Some gain_low"
      then show "gain_low = gain_high"
        using h assms(2)[of low high] rd_in_set[of sorted_idx j low] rd_in_set[OF h(1)]
        by (simp add: rd_Some_iff)
    qed
    then show "t' = t" by (simp add: prod_eq_iff)
  qed auto
  then show ?thesis .
qed

lemma query_parts:
  assumes "get_gradients_for_one_query a gh = Some gh'"
  obtains sorted_idx should_adjust where
    "0 \<le> q_start a" "set sorted_idx = {0..<long_to_int (q_end a - q_start a)}"
    "for_each (range_upto (long_to_int (q_end a - q_start a)))
       (outer_body a sorted_idx should_adjust (long_to_int (q_end a - q_start a))) gh = Some gh'"
proof -
  from assms obtain data sorted_idx should_adjust where
    "ptr_add (q_preds a) (q_start a) = Some data"
    "argsort data (long_to_int (q_end a - q_start a)) = Some sorted_idx"
    "for_each (range_upto (long_to_int (q_end a - q_start a)))
       (outer_body a sorted_idx should_adjust (long_to_int (q_end a - q_start a))) gh = Some gh'"
    by (auto simp: get_gradients_for_one_query_def bind_eq_Some_conv Let_def)
  then show ?thesis
    using that[of sorted_idx should_adjust]
      argsort_Some(4)[of data "long_to_int (q_end a - q_start a)" sorted_idx]
    by (simp add: ptr_add_def split: if_splits)
qed

lemma query_touches:
  assumes "get_gradients_for_one_query a gh = Some gh'" "q_start a \<le> q_end a"
  shows "touches {nat (q_start a)..<nat (q_end a)} gh gh'"
proof -
  from assms(1) obtain sorted_idx should_adjust where
    p: "0 \<le> q_start a" "set sorted_idx = {0..<long_to_int (q_end a - q_start a)}"
    "for_each (range_upto (long_to_int (q_end a - q_start a)))
       (outer_body a sorted_idx should_adjust (long_to_int (q_end a - q_start a))) gh = Some gh'"
    by (rule query_parts)
  have le: "long_to_int (q_end a - q_start a) \<le> q_end a - q_start a"
    using assms(2) by (simp add: long_to_int_le)
  show ?thesis using p(3)
  proof (rule for_each_rel)
    fix i t t'
    assume "outer_body a sorted_idx should_adjust (long_to_int (q_end a - q_start a)) i t = Some t'"
    then show "touches {nat (q_start a)..<nat (q_end a)} t t'"
    proof (rule outer_body_touches)
      fix x assume "x \<in> set sorted_idx"
      then show "nat (q_start a + x) \<in> {nat (q_start a)..<nat (q_end a)}"
        using p(1,2) le by auto
    qed simp
  qed (auto intro: touches_refl touches_trans)
qed

lemma query_same_gain:
  assumes "get_gradients_for_one_query a gh = Some gh'" "q_start a \<le> q_end a"
    and "\<And>k k'. q_start a \<le> k \<Longrightarrow> k < q_end a \<Longrightarrow> q_start a \<le> k' \<Longrightarrow> k' < q_end a
           \<Longrightarrow> q_gains a ! nat k = q_gains a ! nat k'"
  shows "gh' = gh"
proof -
  from assms(1) obtain sorted_idx should_adjust where
    p: "0 \<le> q_start a" "set sorted_idx = {0..<long_to_int (q_end a - q_start a)}"
    "for_each (range_upto (long_to_int (q_end a - q_start a)))
       (outer_body a sorted_idx should_adjust (long_to_int (q_end a - q_start a))) gh = Some gh'"
    by (rule query_parts)
  have le: "long_to_int (q_end a - q_start a) \<le> q_end a - q_start a"
    using assms(2) by (simp add: long_to_int_le)
  have "(\<lambda>s s'. s' = s) gh gh'" using p(3)
  proof (rule for_each_rel)
    fix i t t'
    assume "outer_body a sorted_idx should_adjust (long_to_int (q_end a - q_start a)) i t = Some t'"
    then show "t' = t"
    proof (rule outer_body_same_gain)
      fix x y assume "x \<in> set sorted_idx" "y \<in> set sorted_idx"
      then show "q_gains a ! nat (q_start a + x) = q_gains a ! nat (q_start a + y)"
        using p(1,2) le by (intro assms(3)) auto
    qed
  qed auto
  then show ?thesis .
qed

lemma inner_body_lengths:
  assumes "inner_body a sorted_idx should_adjust i high gain_high score_high j t = Some t'"
  shows "same_lengths t t'"
proof -
  have "inner_body a sorted_idx should_adjust i high gain_high score_high j (fst t, snd t)
          = Some (fst t', snd t')" using assms by simp
  from inner_body_shape[OF this] obtain gain_low where
    n: "\<not> gain_high > gain_low \<Longrightarrow> fst t' = fst t \<and> snd t' = snd t"
    and y: "gain_high > gain_low \<Longrightarrow> \<exists>v w h l.
        fst t' = (fst t)[h := fst t ! h + v, l := (fst t)[h := fst t ! h + v] ! l - v]
        \<and> snd t' = (snd t)[h := snd t ! h + w, l := (snd t)[h := snd t ! h + w] ! l + w]"
    by blast
  show ?thesis
  proof (cases "gain_high > gain_low")
    case True
    from y[OF True] obtain v w h l where
      "fst t' = (fst t)[h := fst t ! h + v, l := (fst t)[h := fst t ! h + v] ! l - v]"
      "snd t' = (snd t)[h := snd t ! h + w, l := (snd t)[h := snd t ! h + w] ! l + w]"
      by blast
    then show ?thesis by (simp add: same_lengths_def)
  next
    case False
    then show ?thesis using n by (simp add: same_lengths_def)
  qed
qed

lemma query_lengths:
  assumes "get_gradients_for_one_query a gh = Some gh'"
  shows "same_lengths gh gh'"
proof -
  from assms obtain sorted_idx should_adjust where
    "for_each (range_upto (long_to_int (q_end a - q_start a)))
       (outer_body a sorted_idx should_adjust (long_to_int (q_end a - q_start a))) gh = Some gh'"
    by (rule query_parts)
  then show ?thesis
  proof (rule for_each_rel)
    fix i t t'
    assume "outer_body a sorted_idx should_adjust (long_to_int (q_end a - q_start a)) i t = Some t'"
    then obtain high gain_high score_high where
      "for_each (range_upto (long_to_int (q_end a - q_start a)))
              (inner_body a sorted_idx should_adjust i high gain_high score_high) t = Some t'"
      by (auto simp: outer_body_def bind_eq_Some_conv)
    then show "same_lengths t t'"
    proof (rule for_each_rel)
      fix j u u'
      assume "inner_body a sorted_idx should_adjust i high gain_high score_high j u = Some u'"
      then show "same_lengths u u'" by (rule inner_body_lengths)
    qed (simp_all add: same_lengths_def)
  qed (simp_all add: same_lengths_def)
qed

lemma query_body_parts:
  assumes "query_body gains preds query_boundaries discounts inverse_max_dcgs sigmoid_table n_sigmoid_bins lo hi factor i gh = Some gh'"
  obtains a where "0 \<le> i" "i + 1 < int (length query_boundaries)"
    "q_start a = query_boundaries ! nat i" "q_end a = query_boundaries ! Suc (nat i)" "q_gains a = gains"
    "get_gradients_for_one_query a gh = Some gh'"
proof -
  from assms obtain st en im where
    r: "rd query_boundaries i = Some st" "rd query_boundaries (i + 1) = Some en"
    and g: "get_gradients_for_one_query
         \<lparr>q_gains = gains, q_preds = preds, q_start = st, q_end = en,
          q_discounts = discounts, q_inverse_max_dcg = im,
          q_sigmoid_table = sigmoid_table, q_n_sigmoid_bins = n_sigmoid_bins,
          q_min_sigmoid_arg = lo, q_max_sigmoid_arg = hi,
          q_sigmoid_idx_factor = factor\<rparr> gh = Some gh'"
    by (auto simp: query_body_def bind_eq_Some_conv)
  have "nat (i + 1) = Suc (nat i)" using r by (auto simp: rd_Some_iff)
  then show ?thesis using that[OF _ _ _ _ _ g] r by (simp add: rd_Some_iff)
qed

lemma sorted_nth_le: "sorted (xs :: int list) \<Longrightarrow> i \<le> j \<Longrightarrow> j < length xs \<Longrightarrow> xs ! i \<le> xs ! j"
  by (simp add: sorted_iff_nth_mono)

lemma sorted_le_last:
  assumes "sorted (xs :: int list)" "i < length xs"
  shows "xs ! i \<le> last xs"
proof -
  have "xs \<noteq> []" using assms(2) by auto
  then have "last xs = xs ! (length xs - 1)" by (rule last_conv_nth)
  moreover have "xs ! i \<le> xs ! (length xs - 1)"
    using assms by (intro sorted_nth_le) auto
  ultimately show ?thesis by simp
qed

lemma query_body_touches:
  assumes "query_body gains preds query_boundaries discounts inverse_max_dcgs sigmoid_table n_sigmoid_bins lo hi factor i gh = Some gh'"
    and "query_boundaries ! nat i \<le> query_boundaries ! Suc (nat i)"
  shows "touches (slice query_boundaries (nat i)) gh gh'"
proof -
  from assms(1) obtain a where a: "q_start a = query_boundaries ! nat i" "q_end a = query_boundaries ! Suc (nat i)"
    "get_gradients_for_one_query a gh = Some gh'"
    by (rule query_body_parts)
  show ?thesis using query_touches[OF a(3)] a(1,2) assms(2) by (simp add: slice_def)
qed

lemma query_body_same_gain:
  assumes "query_body gains preds query_boundaries discounts inverse_max_dcgs sigmoid_table n_sigmoid_bins lo hi factor i gh = Some gh'"
    and "query_boundaries ! nat i \<le> query_boundaries ! Suc (nat i)"
    and "\<And>k k'. query_boundaries ! nat i \<le> k \<Longrightarrow> k < query_boundaries ! Suc (nat i) \<Longrightarrow> query_boundaries ! nat i \<le> k' \<Longrightarrow> k' < query_boundaries ! Suc (nat i)
           \<Longrightarrow> gains ! nat k = gains ! nat k'"
  shows "gh' = gh"
proof -
  from assms(1) obtain a where a: "q_start a = query_boundaries ! nat i" "q_end a = query_boundaries ! Suc (nat i)"
    "q_gains a = gains" "get_gradients_for_one_query a gh = Some gh'"
    by (rule query_body_parts)
  show ?thesis
  proof (rule query_same_gain[OF a(4)])
    show "q_start a \<le> q_end a" using a(1,2) assms(2) by simp
    fix k k'
    assume "q_start a \<le> k" "k < q_end a" "q_start a \<le> k'" "k' < q_end a"
    then have "gains ! nat k = gains ! nat k'"
      unfolding a(1,2) by (rule assms(3))
    then show "q_gains a ! nat k = q_gains a ! nat k'" unfolding a(3) .
  qed
qed

lemma slice_iff:
  "k \<in> slice query_boundaries q \<longleftrightarrow>
     query_boundaries ! q \<le> int k \<and> int k < query_boundaries ! Suc q"
  by (auto simp: slice_def)

lemma slices_disjoint:
  assumes "sorted query_boundaries" "i \<noteq> j" "Suc i < length query_boundaries" "Suc j < length query_boundaries"
  shows "slice query_boundaries i \<inter> slice query_boundaries j = {}"
proof -
  have "query_boundaries ! Suc i \<le> query_boundaries ! j \<or> query_boundaries ! Suc j \<le> query_boundaries ! i"
    using assms by (cases "i < j") (auto intro!: sorted_nth_le)
  then show ?thesis by (auto simp: slice_def)
qed

text \<open>
  Claim C6. Processing query \<open>i\<close> leaves the lengths of \<^verbatim>\<open>grad\<close> and \<^verbatim>\<open>hess\<close> and
  every entry outside \<open>[query_boundaries[i], query_boundaries[i + 1])\<close> as they were; the
  other arrays are arguments that the function only reads. So two queries with disjoint
  ranges never touch the same output entry. (The parallel loop itself is not modelled:
  the queries are processed one after the other.)
\<close>

theorem query_writes_own_slice:
  assumes "query_body gains preds query_boundaries discounts inverse_max_dcgs sigmoid_table
             n_sigmoid_bins lo hi factor i (grad, hess) = Some (grad', hess')"
    and "query_boundaries ! nat i \<le> query_boundaries ! nat (i + 1)"
  shows "length grad' = length grad \<and> length hess' = length hess
     \<and> (\<forall>k. \<not> (query_boundaries ! nat i \<le> int k \<and> int k < query_boundaries ! nat (i + 1))
            \<longrightarrow> grad' ! k = grad ! k \<and> hess' ! k = hess ! k)"
proof -
  from assms(1) have "0 \<le> i" by (rule query_body_parts)
  then have s: "nat (i + 1) = Suc (nat i)" by simp
  have t: "touches (slice query_boundaries (nat i)) (grad, hess) (grad', hess')"
    using assms unfolding s by (rule query_body_touches)
  have "k \<notin> slice query_boundaries (nat i)"
    if "\<not> (query_boundaries ! nat i \<le> int k \<and> int k < query_boundaries ! nat (i + 1))" for k
    using that unfolding s by (auto simp: slice_def)
  then show ?thesis using t by (simp add: touches_def)
qed

theorem query_writes_own_slice_witness:
  "query_body [1, 0, 2, 2] [0, 1, 1 / 2, 1 / 2] [0, 2, 4] [1, 1 / 2, 1 / 4] [1, 1 / 3]
     [1 / 4, 1 / 2, 3 / 4, 1] 4 (- 2) 2 1 0 ([7, 7, 7, 7], [9, 9, 9, 9])
   = Some ([7 - 25 / 202, 7 + 25 / 202, 7, 7], [9 + 75 / 202, 9 + 75 / 202, 9, 9])
   \<and> [7 - 25 / 202, 7 + 25 / 202, 7, 7 :: real] ! 2 = [7, 7, 7, 7] ! 2
   \<and> [9 + 75 / 202, 9 + 75 / 202, 9, 9 :: real] ! 3 = [9, 9, 9, 9] ! 3"
proof -
  have r: "query_body [1, 0, 2, 2] [0, 1, 1 / 2, 1 / 2] [0, 2, 4] [1, 1 / 2, 1 / 4] [1, 1 / 3]
     [1 / 4, 1 / 2, 3 / 4, 1] 4 (- 2) 2 1 0 ([7, 7, 7, 7], [9, 9, 9, 9])
   = Some ([7 - 25 / 202, 7 + 25 / 202, 7, 7], [9 + 75 / 202, 9 + 75 / 202, 9, 9])"
    by code_simp
  have m: "[0, 2, 4 :: int] ! nat 0 \<le> [0, 2, 4] ! nat (0 + 1)" by simp
  from query_writes_own_slice[OF r m] have
    "[7 - 25 / 202, 7 + 25 / 202, 7, 7 :: real] ! 2 = [7, 7, 7, 7] ! 2"
    "[9 + 75 / 202, 9 + 75 / 202, 9, 9 :: real] ! 3 = [9, 9, 9, 9] ! 3"
    by simp_all
  with r show ?thesis by blast
qed

section \<open>The pairs of one query, summed\<close>

lemma for_each_additive:
  assumes "for_each xs body s = Some s'"
    and "\<And>x t t'. x \<in> set xs \<Longrightarrow> body x t = Some t' \<Longrightarrow> f t' = f t + c x"
  shows "f s' = f s + (\<Sum>x\<leftarrow>xs. c x :: real)"
  using assms
proof (induction xs arbitrary: s)
  case Nil
  then show ?case by simp
next
  case (Cons x xs)
  then obtain t where t: "body x s = Some t" "for_each xs body t = Some s'"
    by (auto split: option.splits)
  have "f t = f s + c x" using Cons.prems(2)[of x s t] t(1) by simp
  moreover have "f s' = f t + (\<Sum>x\<leftarrow>xs. c x)"
    by (rule Cons.IH[OF t(2)]) (use Cons.prems(2) in auto)
  ultimately show ?case by simp
qed

lemma nth_two_updates:
  fixes g :: "real list"
  assumes "h < length g" "l < length g"
  shows "g[h := g ! h + v, l := g[h := g ! h + v] ! l + w] ! k
          = g ! k + (if k = h then v else 0) + (if k = l then w else 0)"
  using assms by (auto simp: nth_list_update)

lemma inner_body_adds:
  assumes "inner_body a sorted_idx should_adjust i high gain_high score_high j t = Some t'"
    and "rd sorted_idx i = Some high"
    and "rd (q_gains a) (q_start a + high) = Some gain_high"
    and "rd (q_preds a) (q_start a + high) = Some score_high"
  shows "fst t' ! k = fst t ! k
           + (if qualifies a sorted_idx i j
              then (if k = position a sorted_idx i then pair_lambda a sorted_idx should_adjust i j else 0)
                 - (if k = position a sorted_idx j then pair_lambda a sorted_idx should_adjust i j else 0)
              else 0)"
    and "snd t' ! k = snd t ! k
           + (if qualifies a sorted_idx i j
              then (if k = position a sorted_idx i then pair_hess_term a sorted_idx should_adjust i j else 0)
                 + (if k = position a sorted_idx j then pair_hess_term a sorted_idx should_adjust i j else 0)
              else 0)"
proof -
  have b: "inner_body a sorted_idx should_adjust i high gain_high score_high j (fst t, snd t)
             = Some (fst t', snd t')" using assms(1) by simp
  from inner_body_reads[OF b] obtain low gain_low score_low where
    r: "rd sorted_idx j = Some low" "rd (q_gains a) (q_start a + low) = Some gain_low"
       "rd (q_preds a) (q_start a + low) = Some score_low"
    and q: "gain_high > gain_low \<Longrightarrow>
         (\<exists>p. get_sigmoid (score_high - score_low) (q_sigmoid_table a)
                 (long_to_int (q_n_sigmoid_bins a)) (q_min_sigmoid_arg a) (q_max_sigmoid_arg a)
                 (q_sigmoid_idx_factor a) = Some p)
         \<and> 0 \<le> 1 + i \<and> 1 + i < int (length (q_discounts a))
         \<and> 0 \<le> 1 + j \<and> 1 + j < int (length (q_discounts a))
         \<and> 0 \<le> q_start a + high \<and> q_start a + high < int (length (fst t))
         \<and> q_start a + high < int (length (snd t))
         \<and> 0 \<le> q_start a + low \<and> q_start a + low < int (length (fst t))
         \<and> q_start a + low < int (length (snd t))"
    by blast
  have hi: "high = sorted_idx ! nat i" "gain_high = q_gains a ! position a sorted_idx i"
    "score_high = q_preds a ! position a sorted_idx i"
    and lo: "low = sorted_idx ! nat j" "gain_low = q_gains a ! position a sorted_idx j"
    "score_low = q_preds a ! position a sorted_idx j"
    using assms(2,3,4) r by (simp_all add: rd_Some_iff position_def)
  have ql: "qualifies a sorted_idx i j \<longleftrightarrow> gain_high > gain_low"
    by (simp add: qualifies_def hi lo)
  show "fst t' ! k = fst t ! k
           + (if qualifies a sorted_idx i j
              then (if k = position a sorted_idx i then pair_lambda a sorted_idx should_adjust i j else 0)
                 - (if k = position a sorted_idx j then pair_lambda a sorted_idx should_adjust i j else 0)
              else 0)"
    and "snd t' ! k = snd t ! k
           + (if qualifies a sorted_idx i j
              then (if k = position a sorted_idx i then pair_hess_term a sorted_idx should_adjust i j else 0)
                 + (if k = position a sorted_idx j then pair_hess_term a sorted_idx should_adjust i j else 0)
              else 0)"
  proof (atomize (full), cases "gain_high > gain_low")
    case False
    then have "fst t' = fst t \<and> snd t' = snd t"
      using b r by (simp add: inner_body_def)
    then show "(fst t' ! k = fst t ! k
           + (if qualifies a sorted_idx i j
              then (if k = position a sorted_idx i then pair_lambda a sorted_idx should_adjust i j else 0)
                 - (if k = position a sorted_idx j then pair_lambda a sorted_idx should_adjust i j else 0)
              else 0)) \<and>
      (snd t' ! k = snd t ! k
           + (if qualifies a sorted_idx i j
              then (if k = position a sorted_idx i then pair_hess_term a sorted_idx should_adjust i j else 0)
                 + (if k = position a sorted_idx j then pair_hess_term a sorted_idx should_adjust i j else 0)
              else 0))"
      using False ql by simp
  next
    case True
    from q[OF True] obtain p where p: "get_sigmoid (score_high - score_low) (q_sigmoid_table a)
                 (long_to_int (q_n_sigmoid_bins a)) (q_min_sigmoid_arg a) (q_max_sigmoid_arg a)
                 (q_sigmoid_idx_factor a) = Some p" by blast
    have bd: "0 \<le> 1 + i" "1 + i < int (length (q_discounts a))"
         "0 \<le> 1 + j" "1 + j < int (length (q_discounts a))"
         "0 \<le> q_start a + high" "q_start a + high < int (length (fst t))"
         "q_start a + high < int (length (snd t))"
         "0 \<le> q_start a + low" "q_start a + low < int (length (fst t))"
         "q_start a + low < int (length (snd t))"
      using q[OF True] by simp_all
    define d0 where "d0 = (gain_high - gain_low)
        * \<bar>q_discounts a ! nat (1 + j) - q_discounts a ! nat (1 + i)\<bar> * q_inverse_max_dcg a"
    define d where "d = (if should_adjust then d0 / (0.01 + \<bar>score_high - score_low\<bar>) else d0)"
    define h l where "h = nat (q_start a + high)" and "l = nat (q_start a + low)"
    note code = inner_body_code[OF r p bd True d0_def d_def h_def l_def]
    have pp: "pair_p a sorted_idx i j = p"
      using p by (simp add: pair_p_def pair_delta_score_def hi lo)
    have dd: "pair_delta_ndcg a sorted_idx should_adjust i j = d"
      by (simp add: pair_delta_ndcg_def pair_delta_score_def d_def d0_def hi lo mult_ac)
    have lam: "p * (- d) = pair_lambda a sorted_idx should_adjust i j"
      and ht: "p * (2 - p) * (2 * d) = pair_hess_term a sorted_idx should_adjust i j"
      by (simp_all add: pair_lambda_def pair_hess_term_def pp dd)
    have pos: "h = position a sorted_idx i" "l = position a sorted_idx j"
      by (simp_all add: h_def l_def position_def hi lo)
    have len: "h < length (fst t)" "l < length (fst t)" "h < length (snd t)" "l < length (snd t)"
      using bd by (simp_all add: h_def l_def nat_less_iff)
    from code b have
      g: "fst t' = (fst t)[h := fst t ! h + p * (- d),
                           l := (fst t)[h := fst t ! h + p * (- d)] ! l - p * (- d)]"
      and hs: "snd t' = (snd t)[h := snd t ! h + p * (2 - p) * (2 * d),
                           l := (snd t)[h := snd t ! h + p * (2 - p) * (2 * d)] ! l + p * (2 - p) * (2 * d)]"
      by (simp_all only: option.inject prod.inject)
    have "fst t' ! k = fst t ! k + (if k = h then p * (- d) else 0) + (if k = l then - (p * (- d)) else 0)"
      unfolding g using nth_two_updates[OF len(1,2), of "p * (- d)" "- (p * (- d))" k] by simp
    moreover have "snd t' ! k = snd t ! k + (if k = h then p * (2 - p) * (2 * d) else 0)
                     + (if k = l then p * (2 - p) * (2 * d) else 0)"
      unfolding hs using nth_two_updates[OF len(3,4), of "p * (2 - p) * (2 * d)" "p * (2 - p) * (2 * d)" k]
      by simp
    ultimately show "(fst t' ! k = fst t ! k
           + (if qualifies a sorted_idx i j
              then (if k = position a sorted_idx i then pair_lambda a sorted_idx should_adjust i j else 0)
                 - (if k = position a sorted_idx j then pair_lambda a sorted_idx should_adjust i j else 0)
              else 0)) \<and>
      (snd t' ! k = snd t ! k
           + (if qualifies a sorted_idx i j
              then (if k = position a sorted_idx i then pair_hess_term a sorted_idx should_adjust i j else 0)
                 + (if k = position a sorted_idx j then pair_hess_term a sorted_idx should_adjust i j else 0)
              else 0))"
      using True ql unfolding lam ht pos by simp
  qed
qed

lemma outer_body_adds:
  assumes "outer_body a sorted_idx should_adjust cnt i t = Some t'"
  shows "fst t' ! k = fst t ! k + (\<Sum>j\<leftarrow>range_upto cnt. grad_effect a sorted_idx should_adjust k i j)"
    and "snd t' ! k = snd t ! k + (\<Sum>j\<leftarrow>range_upto cnt. hess_effect a sorted_idx should_adjust k i j)"
proof -
  from assms obtain high gain_high score_high where
    h: "rd sorted_idx i = Some high" "rd (q_gains a) (q_start a + high) = Some gain_high"
       "rd (q_preds a) (q_start a + high) = Some score_high"
    and f: "for_each (range_upto cnt)
              (inner_body a sorted_idx should_adjust i high gain_high score_high) t = Some t'"
    by (auto simp: outer_body_def bind_eq_Some_conv)
  show "fst t' ! k = fst t ! k + (\<Sum>j\<leftarrow>range_upto cnt. grad_effect a sorted_idx should_adjust k i j)"
    using f
  proof (rule for_each_additive[where f = "\<lambda>t. fst t ! k"])
    fix j u u'
    assume "inner_body a sorted_idx should_adjust i high gain_high score_high j u = Some u'"
    from inner_body_adds(1)[OF this h]
    show "fst u' ! k = fst u ! k + grad_effect a sorted_idx should_adjust k i j"
      by (simp add: grad_effect_def)
  qed
  show "snd t' ! k = snd t ! k + (\<Sum>j\<leftarrow>range_upto cnt. hess_effect a sorted_idx should_adjust k i j)"
    using f
  proof (rule for_each_additive[where f = "\<lambda>t. snd t ! k"])
    fix j u u'
    assume "inner_body a sorted_idx should_adjust i high gain_high score_high j u = Some u'"
    from inner_body_adds(2)[OF this h]
    show "snd u' ! k = snd u ! k + hess_effect a sorted_idx should_adjust k i j"
      by (simp add: hess_effect_def)
  qed
qed

lemma sum_list_range_upto: "(\<Sum>i\<leftarrow>range_upto n. f i) = (\<Sum>i = 0..<n. f i :: real)"
proof -
  have "set (range_upto n) = {0..<n}" by (auto simp: range_upto_def)
  moreover have "distinct (range_upto n)" by (simp add: range_upto_def)
  ultimately show ?thesis by (simp add: sum_list_distinct_conv_sum_set)
qed

lemma query_adds:
  assumes "get_gradients_for_one_query a (grad, hess) = Some (grad', hess')"
  obtains sorted_idx where
    "argsort (drop (nat (q_start a)) (q_preds a)) (long_to_int (q_end a - q_start a))
       = Some sorted_idx"
    "0 \<le> q_start a"
    "\<And>k should_adjust.
       should_adjust = (q_preds a ! position a sorted_idx 0
                          \<noteq> q_preds a ! position a sorted_idx (long_to_int (q_end a - q_start a) - 1))
       \<Longrightarrow> grad' ! k = grad ! k
             + (\<Sum>i = 0..<long_to_int (q_end a - q_start a).
                  \<Sum>j = 0..<long_to_int (q_end a - q_start a).
                    grad_effect a sorted_idx should_adjust k i j)
         \<and> hess' ! k = hess ! k
             + (\<Sum>i = 0..<long_to_int (q_end a - q_start a).
                  \<Sum>j = 0..<long_to_int (q_end a - q_start a).
                    hess_effect a sorted_idx should_adjust k i j)"
proof -
  define cnt where "cnt = long_to_int (q_end a - q_start a)"
  from assms obtain data sorted_idx first best_score final worst_score where
    p: "ptr_add (q_preds a) (q_start a) = Some data"
    and s: "argsort data cnt = Some sorted_idx"
    and r: "rd sorted_idx 0 = Some first" "rd (q_preds a) (q_start a + first) = Some best_score"
       "rd sorted_idx (cnt - 1) = Some final" "rd (q_preds a) (q_start a + final) = Some worst_score"
    and f: "for_each (range_upto cnt)
       (outer_body a sorted_idx (best_score \<noteq> worst_score) cnt) (grad, hess) = Some (grad', hess')"
    unfolding get_gradients_for_one_query_def cnt_def[symmetric]
    by (auto simp: bind_eq_Some_conv Let_def)
  have d: "data = drop (nat (q_start a)) (q_preds a)" "0 \<le> q_start a"
    using p by (auto simp: ptr_add_def split: if_splits)
  have sa: "(best_score \<noteq> worst_score)
      = (q_preds a ! position a sorted_idx 0 \<noteq> q_preds a ! position a sorted_idx (cnt - 1))"
    using r by (simp add: rd_Some_iff position_def)
  have g: "grad' ! k = grad ! k
        + (\<Sum>i\<leftarrow>range_upto cnt. \<Sum>j\<leftarrow>range_upto cnt.
             grad_effect a sorted_idx (best_score \<noteq> worst_score) k i j)" for k
    using for_each_additive[OF f, where f = "\<lambda>t. fst t ! k"
        and c = "\<lambda>i. \<Sum>j\<leftarrow>range_upto cnt. grad_effect a sorted_idx (best_score \<noteq> worst_score) k i j"]
      outer_body_adds(1)[of a sorted_idx "best_score \<noteq> worst_score" cnt _ _ _ k]
    by simp
  have h: "hess' ! k = hess ! k
        + (\<Sum>i\<leftarrow>range_upto cnt. \<Sum>j\<leftarrow>range_upto cnt.
             hess_effect a sorted_idx (best_score \<noteq> worst_score) k i j)" for k
    using for_each_additive[OF f, where f = "\<lambda>t. snd t ! k"
        and c = "\<lambda>i. \<Sum>j\<leftarrow>range_upto cnt. hess_effect a sorted_idx (best_score \<noteq> worst_score) k i j"]
      outer_body_adds(2)[of a sorted_idx "best_score \<noteq> worst_score" cnt _ _ _ k]
    by simp
  show ?thesis
  proof (rule that[of sorted_idx])
    show "argsort (drop (nat (q_start a)) (q_preds a)) (long_to_int (q_end a - q_start a))
            = Some sorted_idx"
      using s d by (simp add: cnt_def)
    show "0 \<le> q_start a" by (rule d(2))
    fix k should_adjust
    assume "should_adjust = (q_preds a ! position a sorted_idx 0
                          \<noteq> q_preds a ! position a sorted_idx (long_to_int (q_end a - q_start a) - 1))"
    then have "should_adjust = (best_score \<noteq> worst_score)" using sa by (simp add: cnt_def)
    then show "grad' ! k = grad ! k
             + (\<Sum>i = 0..<long_to_int (q_end a - q_start a).
                  \<Sum>j = 0..<long_to_int (q_end a - q_start a).
                    grad_effect a sorted_idx should_adjust k i j)
         \<and> hess' ! k = hess ! k
             + (\<Sum>i = 0..<long_to_int (q_end a - q_start a).
                  \<Sum>j = 0..<long_to_int (q_end a - q_start a).
                    hess_effect a sorted_idx should_adjust k i j)"
      using g[of k] h[of k] by (simp add: sum_list_range_upto cnt_def)
  qed
qed

lemma position_inj:
  assumes "argsort data cnt = Some sorted_idx" "0 \<le> q_start a"
    and "0 \<le> i" "i < cnt" "0 \<le> r" "r < cnt"
  shows "position a sorted_idx i = position a sorted_idx r \<longleftrightarrow> i = r"
proof -
  note s = argsort_Some(3,4)[OF assms(1)]
  have "card (set sorted_idx) = length sorted_idx" using s by simp
  then have d: "distinct sorted_idx" by (rule card_distinct)
  have l: "nat i < length sorted_idx" "nat r < length sorted_idx" using s assms(3-6) by simp_all
  have "sorted_idx ! nat i \<in> set sorted_idx" "sorted_idx ! nat r \<in> set sorted_idx"
    using l by simp_all
  then have n: "0 \<le> sorted_idx ! nat i" "0 \<le> sorted_idx ! nat r" using s by simp_all
  have "position a sorted_idx i = position a sorted_idx r
          \<longleftrightarrow> sorted_idx ! nat i = sorted_idx ! nat r"
    using n assms(2) by (simp add: position_def eq_nat_nat_iff)
  also have "\<dots> \<longleftrightarrow> nat i = nat r" using d l by (simp add: nth_eq_iff_index_eq)
  also have "\<dots> \<longleftrightarrow> i = r" using assms(3,5) by (simp add: eq_nat_nat_iff)
  finally show ?thesis .
qed

lemma double_sum_pick:
  fixes f :: "int \<Rightarrow> int \<Rightarrow> real"
  assumes "0 \<le> r" "r < n"
  shows "(\<Sum>i = 0..<n. \<Sum>j = 0..<n. if i = r then f i j else 0) = (\<Sum>j = 0..<n. f r j)"
    and "(\<Sum>i = 0..<n. \<Sum>j = 0..<n. if j = r then f i j else 0) = (\<Sum>i = 0..<n. f i r)"
proof -
  have "(\<Sum>i = 0..<n. \<Sum>j = 0..<n. if i = r then f i j else 0)
      = (\<Sum>i = 0..<n. if i = r then (\<Sum>j = 0..<n. f i j) else 0)"
    by (intro sum.cong) auto
  also have "\<dots> = (\<Sum>j = 0..<n. f r j)" using assms by (simp add: sum.delta)
  finally show "(\<Sum>i = 0..<n. \<Sum>j = 0..<n. if i = r then f i j else 0) = (\<Sum>j = 0..<n. f r j)" .
  show "(\<Sum>i = 0..<n. \<Sum>j = 0..<n. if j = r then f i j else 0) = (\<Sum>i = 0..<n. f i r)"
    using assms by (simp add: sum.delta)
qed

text \<open>
  Every ordered pair of sorted positions is visited once. When the function returns,
  the gradient entry of the document at sorted position \<open>r\<close> has grown by the
  \<open>lambda\<close> of every qualifying pair in which it is the high document, less the
  \<open>lambda\<close> of every qualifying pair in which it is the low one; its Hessian entry has
  grown by the \<open>hess_term\<close> of both kinds of pair.
\<close>

lemma query_accumulates_pairs:
  assumes "get_gradients_for_one_query a (grad, hess) = Some (grad', hess')"
  shows "\<exists>sorted_idx.
     argsort (drop (nat (q_start a)) (q_preds a)) (long_to_int (q_end a - q_start a))
       = Some sorted_idx
     \<and> (let cnt = long_to_int (q_end a - q_start a);
             should_adjust = (q_preds a ! position a sorted_idx 0
                                \<noteq> q_preds a ! position a sorted_idx (cnt - 1))
         in \<forall>r. 0 \<le> r \<and> r < cnt \<longrightarrow>
              grad' ! position a sorted_idx r
                = grad ! position a sorted_idx r
                  + (\<Sum>j = 0..<cnt. if qualifies a sorted_idx r j
                                     then pair_lambda a sorted_idx should_adjust r j else 0)
                  - (\<Sum>i = 0..<cnt. if qualifies a sorted_idx i r
                                     then pair_lambda a sorted_idx should_adjust i r else 0)
              \<and> hess' ! position a sorted_idx r
                = hess ! position a sorted_idx r
                  + (\<Sum>j = 0..<cnt. if qualifies a sorted_idx r j
                                     then pair_hess_term a sorted_idx should_adjust r j else 0)
                  + (\<Sum>i = 0..<cnt. if qualifies a sorted_idx i r
                                     then pair_hess_term a sorted_idx should_adjust i r else 0))"
proof (rule query_adds[OF assms])
  fix sorted_idx
  let ?cnt = "long_to_int (q_end a - q_start a)"
  assume s: "argsort (drop (nat (q_start a)) (q_preds a)) ?cnt = Some sorted_idx"
    and st: "0 \<le> q_start a"
    and adds: "\<And>k should_adjust.
       should_adjust = (q_preds a ! position a sorted_idx 0
                          \<noteq> q_preds a ! position a sorted_idx (?cnt - 1))
       \<Longrightarrow> grad' ! k = grad ! k
             + (\<Sum>i = 0..<?cnt. \<Sum>j = 0..<?cnt. grad_effect a sorted_idx should_adjust k i j)
         \<and> hess' ! k = hess ! k
             + (\<Sum>i = 0..<?cnt. \<Sum>j = 0..<?cnt. hess_effect a sorted_idx should_adjust k i j)"
  define sa where "sa = (q_preds a ! position a sorted_idx 0
                          \<noteq> q_preds a ! position a sorted_idx (?cnt - 1))"
  have main: "grad' ! position a sorted_idx r
                = grad ! position a sorted_idx r
                  + (\<Sum>j = 0..<?cnt. if qualifies a sorted_idx r j
                                     then pair_lambda a sorted_idx sa r j else 0)
                  - (\<Sum>i = 0..<?cnt. if qualifies a sorted_idx i r
                                     then pair_lambda a sorted_idx sa i r else 0)
              \<and> hess' ! position a sorted_idx r
                = hess ! position a sorted_idx r
                  + (\<Sum>j = 0..<?cnt. if qualifies a sorted_idx r j
                                     then pair_hess_term a sorted_idx sa r j else 0)
                  + (\<Sum>i = 0..<?cnt. if qualifies a sorted_idx i r
                                     then pair_hess_term a sorted_idx sa i r else 0)"
    if r: "0 \<le> r" "r < ?cnt" for r
  proof -
    have inj: "position a sorted_idx r = position a sorted_idx i \<longleftrightarrow> i = r"
      if "i \<in> {0..<?cnt}" for i
      using position_inj[OF s st, of i r] that r by auto
    have ge: "grad_effect a sorted_idx sa (position a sorted_idx r) i j
        = (if i = r then (if qualifies a sorted_idx i j then pair_lambda a sorted_idx sa i j else 0) else 0)
          - (if j = r then (if qualifies a sorted_idx i j then pair_lambda a sorted_idx sa i j else 0) else 0)"
      if "i \<in> {0..<?cnt}" "j \<in> {0..<?cnt}" for i j
      using inj[OF that(1)] inj[OF that(2)] by (simp add: grad_effect_def)
    have he: "hess_effect a sorted_idx sa (position a sorted_idx r) i j
        = (if i = r then (if qualifies a sorted_idx i j then pair_hess_term a sorted_idx sa i j else 0) else 0)
          + (if j = r then (if qualifies a sorted_idx i j then pair_hess_term a sorted_idx sa i j else 0) else 0)"
      if "i \<in> {0..<?cnt}" "j \<in> {0..<?cnt}" for i j
      using inj[OF that(1)] inj[OF that(2)] by (simp add: hess_effect_def)
    have "(\<Sum>i = 0..<?cnt. \<Sum>j = 0..<?cnt. grad_effect a sorted_idx sa (position a sorted_idx r) i j)
        = (\<Sum>i = 0..<?cnt. \<Sum>j = 0..<?cnt.
             (if i = r then (if qualifies a sorted_idx i j then pair_lambda a sorted_idx sa i j else 0) else 0)
           - (if j = r then (if qualifies a sorted_idx i j then pair_lambda a sorted_idx sa i j else 0) else 0))"
      by (intro sum.cong refl ge)
    also have "\<dots> = (\<Sum>j = 0..<?cnt. if qualifies a sorted_idx r j
                                     then pair_lambda a sorted_idx sa r j else 0)
                  - (\<Sum>i = 0..<?cnt. if qualifies a sorted_idx i r
                                     then pair_lambda a sorted_idx sa i r else 0)"
      unfolding sum_subtractf
      using double_sum_pick[OF r, of "\<lambda>i j. if qualifies a sorted_idx i j
                                     then pair_lambda a sorted_idx sa i j else 0"]
      by simp
    finally have g: "(\<Sum>i = 0..<?cnt. \<Sum>j = 0..<?cnt.
                        grad_effect a sorted_idx sa (position a sorted_idx r) i j)
       = (\<Sum>j = 0..<?cnt. if qualifies a sorted_idx r j then pair_lambda a sorted_idx sa r j else 0)
         - (\<Sum>i = 0..<?cnt. if qualifies a sorted_idx i r then pair_lambda a sorted_idx sa i r else 0)" .
    have "(\<Sum>i = 0..<?cnt. \<Sum>j = 0..<?cnt. hess_effect a sorted_idx sa (position a sorted_idx r) i j)
        = (\<Sum>i = 0..<?cnt. \<Sum>j = 0..<?cnt.
             (if i = r then (if qualifies a sorted_idx i j then pair_hess_term a sorted_idx sa i j else 0) else 0)
           + (if j = r then (if qualifies a sorted_idx i j then pair_hess_term a sorted_idx sa i j else 0) else 0))"
      by (intro sum.cong refl he)
    also have "\<dots> = (\<Sum>j = 0..<?cnt. if qualifies a sorted_idx r j
                                     then pair_hess_term a sorted_idx sa r j else 0)
                  + (\<Sum>i = 0..<?cnt. if qualifies a sorted_idx i r
                                     then pair_hess_term a sorted_idx sa i r else 0)"
      unfolding sum.distrib
      using double_sum_pick[OF r, of "\<lambda>i j. if qualifies a sorted_idx i j
                                     then pair_hess_term a sorted_idx sa i j else 0"]
      by simp
    finally have h: "(\<Sum>i = 0..<?cnt. \<Sum>j = 0..<?cnt.
                        hess_effect a sorted_idx sa (position a sorted_idx r) i j)
       = (\<Sum>j = 0..<?cnt. if qualifies a sorted_idx r j then pair_hess_term a sorted_idx sa r j else 0)
         + (\<Sum>i = 0..<?cnt. if qualifies a sorted_idx i r then pair_hess_term a sorted_idx sa i r else 0)" .
    show ?thesis using adds[OF sa_def, of "position a sorted_idx r"] unfolding g h by simp
  qed
  have final: "\<forall>r. 0 \<le> r \<and> r < ?cnt \<longrightarrow>
              grad' ! position a sorted_idx r
                = grad ! position a sorted_idx r
                  + (\<Sum>j = 0..<?cnt. if qualifies a sorted_idx r j
                                     then pair_lambda a sorted_idx sa r j else 0)
                  - (\<Sum>i = 0..<?cnt. if qualifies a sorted_idx i r
                                     then pair_lambda a sorted_idx sa i r else 0)
              \<and> hess' ! position a sorted_idx r
                = hess ! position a sorted_idx r
                  + (\<Sum>j = 0..<?cnt. if qualifies a sorted_idx r j
                                     then pair_hess_term a sorted_idx sa r j else 0)
                  + (\<Sum>i = 0..<?cnt. if qualifies a sorted_idx i r
                                     then pair_hess_term a sorted_idx sa i r else 0)"
  proof (intro allI impI)
    fix r assume "0 \<le> r \<and> r < ?cnt"
    then have "0 \<le> r" "r < ?cnt" by simp_all
    then show "grad' ! position a sorted_idx r
                = grad ! position a sorted_idx r
                  + (\<Sum>j = 0..<?cnt. if qualifies a sorted_idx r j
                                     then pair_lambda a sorted_idx sa r j else 0)
                  - (\<Sum>i = 0..<?cnt. if qualifies a sorted_idx i r
                                     then pair_lambda a sorted_idx sa i r else 0)
              \<and> hess' ! position a sorted_idx r
                = hess ! position a sorted_idx r
                  + (\<Sum>j = 0..<?cnt. if qualifies a sorted_idx r j
                                     then pair_hess_term a sorted_idx sa r j else 0)
                  + (\<Sum>i = 0..<?cnt. if qualifies a sorted_idx i r
                                     then pair_hess_term a sorted_idx sa i r else 0)"
      by (rule main)
  qed
  show ?thesis
    unfolding Let_def
    by (intro exI[where x = sorted_idx] conjI s final[unfolded sa_def])
qed

section \<open>The kernel returns on well-formed input\<close>

lemma get_sigmoid_total:
  assumes "sigmoid_table_ok sigmoid_table n lo hi factor"
  shows "\<exists>p. get_sigmoid score sigmoid_table (long_to_int n) lo hi factor = Some p"
proof -
  have n: "long_to_int n = n" using assms by (simp add: sigmoid_table_ok_def long_to_int_id)
  have "lo < hi" "1 \<le> n" "n < 2 ^ 31" "factor = real_of_int n / (hi - lo)"
    using assms by (simp_all add: sigmoid_table_ok_def)
  from sigmoid_idx_cases[OF this, of score] assms show ?thesis
    unfolding n by (auto simp: get_sigmoid_def rd_def sigmoid_table_ok_def)
qed

lemma inner_body_total:
  assumes "query_ok a (length grad) (length hess)"
    and "set sorted_idx = {0..<q_end a - q_start a}"
    and "0 \<le> i" "i < q_end a - q_start a"
    and "0 \<le> j" "j < q_end a - q_start a" "int (length sorted_idx) = q_end a - q_start a"
    and "0 \<le> high" "high < q_end a - q_start a"
  shows "\<exists>grad' hess'. inner_body a sorted_idx should_adjust i high gain_high score_high j (grad, hess)
            = Some (grad', hess') \<and> length grad' = length grad \<and> length hess' = length hess"
proof -
  define low where "low = sorted_idx ! nat j"
  have r: "rd sorted_idx j = Some low" using assms(5,6,7) by (simp add: rd_def low_def)
  have "low \<in> set sorted_idx" using r by (rule rd_in_set)
  then have low: "0 \<le> low" "low < q_end a - q_start a" using assms(2) by auto
  have ok: "0 \<le> q_start a" "q_end a \<le> int (length (q_gains a))" "q_end a \<le> int (length (q_preds a))"
    "q_end a \<le> int (length grad)" "q_end a \<le> int (length hess)"
    "q_end a - q_start a < int (length (q_discounts a))"
    using assms(1) by (simp_all add: query_ok_def)
  define gain_low score_low where "gain_low = q_gains a ! nat (q_start a + low)"
    and "score_low = q_preds a ! nat (q_start a + low)"
  have rg: "rd (q_gains a) (q_start a + low) = Some gain_low"
    and rp: "rd (q_preds a) (q_start a + low) = Some score_low"
    using low ok by (simp_all add: rd_def gain_low_def score_low_def)
  show ?thesis
  proof (cases "gain_high > gain_low")
    case False
    then show ?thesis using r rg rp by (simp add: inner_body_def)
  next
    case True
    obtain p where p: "get_sigmoid (score_high - score_low) (q_sigmoid_table a)
           (long_to_int (q_n_sigmoid_bins a)) (q_min_sigmoid_arg a) (q_max_sigmoid_arg a)
           (q_sigmoid_idx_factor a) = Some p"
      using get_sigmoid_total assms(1) unfolding query_ok_def by blast
    have b: "0 \<le> 1 + i" "1 + i < int (length (q_discounts a))"
         "0 \<le> 1 + j" "1 + j < int (length (q_discounts a))"
         "0 \<le> q_start a + high" "q_start a + high < int (length grad)"
         "q_start a + high < int (length hess)"
         "0 \<le> q_start a + low" "q_start a + low < int (length grad)"
         "q_start a + low < int (length hess)"
      using assms(3-9) low ok by linarith+
    note c = inner_body_code[OF r rg rp p b True refl refl refl refl, of should_adjust]
    show ?thesis unfolding c by simp
  qed
qed

lemma outer_body_total:
  assumes "query_ok a (length (fst gh)) (length (snd gh))"
    and "set sorted_idx = {0..<q_end a - q_start a}"
    and "int (length sorted_idx) = q_end a - q_start a"
    and "0 \<le> i" "i < q_end a - q_start a"
  shows "\<exists>gh'. outer_body a sorted_idx should_adjust (q_end a - q_start a) i gh = Some gh'
            \<and> same_lengths gh gh'"
proof -
  define high where "high = sorted_idx ! nat i"
  have r: "rd sorted_idx i = Some high" using assms(3,4,5) by (simp add: rd_def high_def)
  have "high \<in> set sorted_idx" using r by (rule rd_in_set)
  then have high: "0 \<le> high" "high < q_end a - q_start a" using assms(2) by auto
  have ok: "0 \<le> q_start a" "q_end a \<le> int (length (q_gains a))" "q_end a \<le> int (length (q_preds a))"
    using assms(1) by (simp_all add: query_ok_def)
  define gain_high score_high where "gain_high = q_gains a ! nat (q_start a + high)"
    and "score_high = q_preds a ! nat (q_start a + high)"
  have rg: "rd (q_gains a) (q_start a + high) = Some gain_high"
    and rp: "rd (q_preds a) (q_start a + high) = Some score_high"
    using high ok by (simp_all add: rd_def gain_high_def score_high_def)
  have "\<exists>gh'. for_each (range_upto (q_end a - q_start a))
            (inner_body a sorted_idx should_adjust i high gain_high score_high) gh = Some gh'
          \<and> same_lengths gh gh'"
  proof (rule for_each_total)
    show "same_lengths gh gh" by (simp add: same_lengths_def)
    fix j t
    assume j: "j \<in> set (range_upto (q_end a - q_start a))" and t: "same_lengths gh t"
    then have "query_ok a (length (fst t)) (length (snd t))"
      using assms(1) by (simp add: same_lengths_def)
    from inner_body_total[OF this assms(2) assms(4,5) _ _ assms(3) high, of j should_adjust
        gain_high score_high] j
    obtain g' h' where "inner_body a sorted_idx should_adjust i high gain_high score_high j
        (fst t, snd t) = Some (g', h')" "length g' = length (fst t)" "length h' = length (snd t)"
      by (auto simp: range_upto_def)
    then show "\<exists>t'. inner_body a sorted_idx should_adjust i high gain_high score_high j t = Some t'
        \<and> same_lengths gh t'"
      using t by (auto simp: same_lengths_def)
  qed
  then show ?thesis using r rg rp by (simp add: outer_body_def)
qed

lemma query_total:
  assumes "query_ok a (length (fst gh)) (length (snd gh))"
  shows "\<exists>gh'. get_gradients_for_one_query a gh = Some gh' \<and> same_lengths gh gh'"
proof -
  define cnt where "cnt = q_end a - q_start a"
  have ok: "0 \<le> q_start a" "1 \<le> cnt" "cnt < 2 ^ 31" "q_end a \<le> int (length (q_preds a))"
    using assms by (simp_all add: query_ok_def cnt_def)
  have c: "long_to_int (q_end a - q_start a) = cnt"
    using ok by (simp add: cnt_def long_to_int_id)
  have p: "ptr_add (q_preds a) (q_start a) = Some (drop (nat (q_start a)) (q_preds a))"
    using ok by (simp add: ptr_add_def cnt_def)
  obtain sorted_idx where s: "argsort (drop (nat (q_start a)) (q_preds a)) cnt = Some sorted_idx"
    using argsort_eq[of cnt "drop (nat (q_start a)) (q_preds a)"] ok by (auto simp: cnt_def)
  note si = argsort_Some(3,4)[OF s]
  have len: "int (length sorted_idx) = cnt" using si(1) ok by simp
  have mem: "0 \<le> x \<and> x < cnt" if "x \<in> set sorted_idx" for x using that si(2) by simp
  define first final where "first = sorted_idx ! 0" and "final = sorted_idx ! nat (cnt - 1)"
  have r1: "rd sorted_idx 0 = Some first" "rd sorted_idx (cnt - 1) = Some final"
    using len ok by (simp_all add: rd_def first_def final_def)
  have "first \<in> set sorted_idx" "final \<in> set sorted_idx" using r1 by (auto dest: rd_in_set)
  then have "0 \<le> first \<and> first < cnt" "0 \<le> final \<and> final < cnt" using mem by auto
  then obtain best_score worst_score where
    r2: "rd (q_preds a) (q_start a + first) = Some best_score"
        "rd (q_preds a) (q_start a + final) = Some worst_score"
    using ok by (auto simp: rd_def cnt_def)
  have "\<exists>gh'. for_each (range_upto cnt)
      (outer_body a sorted_idx (best_score \<noteq> worst_score) cnt) gh = Some gh' \<and> same_lengths gh gh'"
  proof (rule for_each_total)
    show "same_lengths gh gh" by (simp add: same_lengths_def)
    fix i t
    assume i: "i \<in> set (range_upto cnt)" and t: "same_lengths gh t"
    then have "query_ok a (length (fst t)) (length (snd t))"
      using assms by (simp add: same_lengths_def)
    from outer_body_total[OF this, of sorted_idx i "best_score \<noteq> worst_score"] si(2) len i
    obtain t' where "outer_body a sorted_idx (best_score \<noteq> worst_score) cnt i t = Some t'"
      "same_lengths t t'"
      by (auto simp: range_upto_def cnt_def)
    then show "\<exists>t'. outer_body a sorted_idx (best_score \<noteq> worst_score) cnt i t = Some t'
        \<and> same_lengths gh t'"
      using t by (auto simp: same_lengths_def)
  qed
  then show ?thesis
    using p s r1 r2 c by (simp add: get_gradients_for_one_query_def)
qed

lemma kernel_total:
  assumes "kernel_input_ok gains preds n_preds query_boundaries n_queries discounts
             inverse_max_dcgs sigmoid_table n_sigmoid_bins lo hi factor grad hess"
  shows "\<exists>grad' hess'. get_gradients_native gains preds n_preds groups query_boundaries n_queries
            discounts inverse_max_dcgs sigmoid_table n_sigmoid_bins lo hi factor grad hess
          = Some (grad', hess') \<and> length grad' = length grad \<and> length hess' = length hess"
proof -
  define g0 h0 where "g0 = replicate (nat n_preds) 0 @ drop (nat n_preds) grad"
    and "h0 = replicate (nat n_preds) (0::real) @ drop (nat n_preds) hess"
  have np: "0 \<le> n_preds" "n_preds \<le> int (length grad)" "n_preds \<le> int (length hess)"
    and nq: "n_queries < int (length query_boundaries)" "n_queries \<le> int (length inverse_max_dcgs)"
    and sg: "sigmoid_table_ok sigmoid_table n_sigmoid_bins lo hi factor"
    and qs: "\<forall>i\<in>set (range_upto n_queries).
           0 \<le> query_boundaries ! nat i
           \<and> query_boundaries ! nat i < query_boundaries ! nat (i + 1)
           \<and> query_boundaries ! nat (i + 1) - query_boundaries ! nat i < 2 ^ 31
           \<and> query_boundaries ! nat (i + 1) - query_boundaries ! nat i < int (length discounts)
           \<and> query_boundaries ! nat (i + 1) \<le> int (length gains)
           \<and> query_boundaries ! nat (i + 1) \<le> int (length preds)
           \<and> query_boundaries ! nat (i + 1) \<le> int (length grad)
           \<and> query_boundaries ! nat (i + 1) \<le> int (length hess)"
    using assms unfolding kernel_input_ok_def by blast+
  have m: "memset_zero grad n_preds = Some g0" "memset_zero hess n_preds = Some h0"
    using np by (simp_all add: memset_zero_def g0_def h0_def)
  have l0: "length g0 = length grad" "length h0 = length hess"
    using np by (simp_all add: g0_def h0_def nat_le_iff)
  have "\<exists>gh'. for_each (range_upto n_queries)
      (query_body gains preds query_boundaries discounts inverse_max_dcgs sigmoid_table
         n_sigmoid_bins lo hi factor) (g0, h0) = Some gh' \<and> same_lengths (g0, h0) gh'"
  proof (rule for_each_total)
    show "same_lengths (g0, h0) (g0, h0)" by (simp add: same_lengths_def)
    fix i t
    assume i: "i \<in> set (range_upto n_queries)" and t: "same_lengths (g0, h0) t"
    then have ir: "0 \<le> i" "i < n_queries" by (simp_all add: range_upto_def)
    have r: "rd query_boundaries i = Some (query_boundaries ! nat i)"
      "rd query_boundaries (i + 1) = Some (query_boundaries ! nat (i + 1))"
      "rd inverse_max_dcgs i = Some (inverse_max_dcgs ! nat i)"
      using nq ir by (simp_all add: rd_def)
    define a where "a = \<lparr>q_gains = gains, q_preds = preds, q_start = query_boundaries ! nat i,
          q_end = query_boundaries ! nat (i + 1),
          q_discounts = discounts, q_inverse_max_dcg = inverse_max_dcgs ! nat i,
          q_sigmoid_table = sigmoid_table, q_n_sigmoid_bins = n_sigmoid_bins,
          q_min_sigmoid_arg = lo, q_max_sigmoid_arg = hi,
          q_sigmoid_idx_factor = factor\<rparr>"
    have lt: "length (fst t) = length grad" "length (snd t) = length hess"
      using t l0 by (simp_all add: same_lengths_def)
    from qs i have "0 \<le> query_boundaries ! nat i
           \<and> query_boundaries ! nat i < query_boundaries ! nat (i + 1)
           \<and> query_boundaries ! nat (i + 1) - query_boundaries ! nat i < 2 ^ 31
           \<and> query_boundaries ! nat (i + 1) - query_boundaries ! nat i < int (length discounts)
           \<and> query_boundaries ! nat (i + 1) \<le> int (length gains)
           \<and> query_boundaries ! nat (i + 1) \<le> int (length preds)
           \<and> query_boundaries ! nat (i + 1) \<le> int (length grad)
           \<and> query_boundaries ! nat (i + 1) \<le> int (length hess)"
      by (rule bspec)
    then have "query_ok a (length (fst t)) (length (snd t))"
      unfolding query_ok_def lt using sg by (simp add: a_def)
    from query_total[OF this] obtain t' where
      "get_gradients_for_one_query a t = Some t'" "same_lengths t t'" by blast
    then have "query_body gains preds query_boundaries discounts inverse_max_dcgs
        sigmoid_table n_sigmoid_bins lo hi factor i t = Some t'" "same_lengths (g0, h0) t'"
      using r t unfolding query_body_def a_def by (simp_all add: same_lengths_def)
    then show "\<exists>t'. query_body gains preds query_boundaries discounts inverse_max_dcgs
        sigmoid_table n_sigmoid_bins lo hi factor i t = Some t' \<and> same_lengths (g0, h0) t'"
      by blast
  qed
  then show ?thesis using m l0 by (auto simp: get_gradients_native_def same_lengths_def)
qed

section \<open>The whole kernel\<close>

lemma kernel_parts:
  assumes "get_gradients_native gains preds n_preds groups query_boundaries n_queries discounts inverse_max_dcgs sigmoid_table
             n_sigmoid_bins lo hi factor grad hess = Some gh'"
  obtains "0 \<le> n_preds" "n_preds \<le> int (length grad)" "n_preds \<le> int (length hess)"
    "for_each (range_upto n_queries)
       (query_body gains preds query_boundaries discounts inverse_max_dcgs sigmoid_table n_sigmoid_bins lo hi factor)
       (replicate (nat n_preds) 0 @ drop (nat n_preds) grad,
        replicate (nat n_preds) 0 @ drop (nat n_preds) hess) = Some gh'"
proof -
  from assms obtain g h where m: "memset_zero grad n_preds = Some g" "memset_zero hess n_preds = Some h"
    and f: "for_each (range_upto n_queries)
       (query_body gains preds query_boundaries discounts inverse_max_dcgs sigmoid_table n_sigmoid_bins lo hi factor)
       (g, h) = Some gh'"
    by (auto simp: get_gradients_native_def bind_eq_Some_conv)
  from m have "0 \<le> n_preds" "n_preds \<le> int (length grad)" "n_preds \<le> int (length hess)"
    "g = replicate (nat n_preds) 0 @ drop (nat n_preds) grad"
    "h = replicate (nat n_preds) 0 @ drop (nat n_preds) hess"
    by (simp_all add: memset_zero_def split: if_splits)
  then show ?thesis using that f by simp
qed

lemma kernel_steps:
  assumes "get_gradients_native gains preds n_preds groups query_boundaries n_queries discounts inverse_max_dcgs sigmoid_table
             n_sigmoid_bins lo hi factor grad hess = Some gh'"
    and "sorted query_boundaries"
    and "\<And>s. R s s" "\<And>s t u. R s t \<Longrightarrow> R t u \<Longrightarrow> R s u"
    and "\<And>i t t'. i < nat n_queries \<Longrightarrow> Suc i < length query_boundaries \<Longrightarrow> touches (slice query_boundaries i) t t'
           \<Longrightarrow> query_body gains preds query_boundaries discounts inverse_max_dcgs sigmoid_table n_sigmoid_bins lo hi factor (int i) t = Some t'
           \<Longrightarrow> R t t'"
  shows "R (replicate (nat n_preds) 0 @ drop (nat n_preds) grad,
            replicate (nat n_preds) 0 @ drop (nat n_preds) hess) gh'"
proof -
  from assms(1) have "for_each (range_upto n_queries)
       (query_body gains preds query_boundaries discounts inverse_max_dcgs sigmoid_table n_sigmoid_bins lo hi factor)
       (replicate (nat n_preds) 0 @ drop (nat n_preds) grad,
        replicate (nat n_preds) 0 @ drop (nat n_preds) hess) = Some gh'"
    by (rule kernel_parts)
  then show ?thesis
  proof (rule for_each_rel)
    fix i t t'
    assume i: "i \<in> set (range_upto n_queries)"
      and b: "query_body gains preds query_boundaries discounts inverse_max_dcgs sigmoid_table n_sigmoid_bins lo hi factor i t = Some t'"
    from b obtain a :: query_args where p: "0 \<le> i" "i + 1 < int (length query_boundaries)" by (rule query_body_parts)
    then have s: "Suc (nat i) < length query_boundaries" by simp
    then have "query_boundaries ! nat i \<le> query_boundaries ! Suc (nat i)"
      using assms(2) by (intro sorted_nth_le) auto
    with b have "touches (slice query_boundaries (nat i)) t t'" by (rule query_body_touches)
    moreover have "nat i < nat n_queries" using i p by (simp add: range_upto_def)
    moreover have "int (nat i) = i" using p by simp
    ultimately show "R t t'" using assms(5)[of "nat i" t t'] s b by simp
  qed (use assms(3,4) in auto)
qed

lemma kernel_lengths:
  assumes "get_gradients_native gains preds n_preds groups query_boundaries n_queries discounts
             inverse_max_dcgs sigmoid_table n_sigmoid_bins lo hi factor grad hess
           = Some (grad', hess')"
  shows "length grad' = length grad \<and> length hess' = length hess"
proof (rule kernel_parts[OF assms])
  assume np: "0 \<le> n_preds" "n_preds \<le> int (length grad)" "n_preds \<le> int (length hess)"
    and f: "for_each (range_upto n_queries)
       (query_body gains preds query_boundaries discounts inverse_max_dcgs sigmoid_table
          n_sigmoid_bins lo hi factor)
       (replicate (nat n_preds) 0 @ drop (nat n_preds) grad,
        replicate (nat n_preds) 0 @ drop (nat n_preds) hess) = Some (grad', hess')"
  from f have "same_lengths (replicate (nat n_preds) 0 @ drop (nat n_preds) grad,
        replicate (nat n_preds) 0 @ drop (nat n_preds) hess) (grad', hess')"
  proof (rule for_each_rel)
    fix i t t'
    assume "query_body gains preds query_boundaries discounts inverse_max_dcgs sigmoid_table
          n_sigmoid_bins lo hi factor i t = Some t'"
    then obtain a :: query_args where "get_gradients_for_one_query a t = Some t'"
      by (rule query_body_parts)
    then show "same_lengths t t'" by (rule query_lengths)
  qed (simp_all add: same_lengths_def)
  then show ?thesis using np by (simp add: same_lengths_def nat_le_iff)
qed

lemma zeroed_nth: "k < nat n \<Longrightarrow> (replicate (nat n) (0::real) @ xs) ! k = 0"
  by (simp add: nth_append)

lemma kernel_same_label_zero:
  assumes "get_gradients_native gains preds n_preds groups query_boundaries n_queries discounts
             inverse_max_dcgs sigmoid_table n_sigmoid_bins lo hi factor grad hess
           = Some (grad', hess')"
    and "query_boundary_table query_boundaries n_queries n_preds"
    and "q < nat n_queries"
    and "\<And>k k'. query_boundaries ! q \<le> k \<Longrightarrow> k < query_boundaries ! Suc q
           \<Longrightarrow> query_boundaries ! q \<le> k' \<Longrightarrow> k' < query_boundaries ! Suc q
           \<Longrightarrow> gains ! nat k = gains ! nat k'"
    and "k \<in> slice query_boundaries q"
  shows "grad' ! k = 0 \<and> hess' ! k = 0"
proof -
  define Z where "Z = (\<lambda>s :: real list \<times> real list. fst s ! k = 0 \<and> snd s ! k = 0)"
  have srt: "sorted query_boundaries" and len: "int (length query_boundaries) = n_queries + 1"
    and lst: "last query_boundaries = n_preds"
    using assms(2) by (simp_all add: query_boundary_table_def)
  have "(\<lambda>s t. Z s \<longrightarrow> Z t)
          (replicate (nat n_preds) 0 @ drop (nat n_preds) grad,
           replicate (nat n_preds) 0 @ drop (nat n_preds) hess) (grad', hess')"
    using assms(1) srt
  proof (rule kernel_steps)
    fix i t t'
    assume i: "i < nat n_queries" "Suc i < length query_boundaries"
      and tch: "touches (slice query_boundaries i) t t'"
      and b: "query_body gains preds query_boundaries discounts inverse_max_dcgs sigmoid_table
                n_sigmoid_bins lo hi factor (int i) t = Some t'"
    show "Z t \<longrightarrow> Z t'"
    proof (cases "i = q")
      case True
      have "t' = t" using b
      proof (rule query_body_same_gain)
        show "query_boundaries ! nat (int i) \<le> query_boundaries ! Suc (nat (int i))"
          using srt i by (simp add: sorted_nth_le)
        fix k k'
        assume "query_boundaries ! nat (int i) \<le> k" "k < query_boundaries ! Suc (nat (int i))"
          "query_boundaries ! nat (int i) \<le> k'" "k' < query_boundaries ! Suc (nat (int i))"
        then have "query_boundaries ! q \<le> k" "k < query_boundaries ! Suc q"
          "query_boundaries ! q \<le> k'" "k' < query_boundaries ! Suc q"
          using True by simp_all
        then show "gains ! nat k = gains ! nat k'" by (rule assms(4))
      qed
      then show ?thesis by simp
    next
      case False
      have "Suc q < length query_boundaries" using assms(3) len by simp
      then have "slice query_boundaries i \<inter> slice query_boundaries q = {}"
        using srt False i by (intro slices_disjoint) auto
      then have "k \<notin> slice query_boundaries i" using assms(5) by auto
      then show ?thesis using tch by (simp add: touches_def Z_def)
    qed
  qed auto
  moreover have "Z (replicate (nat n_preds) 0 @ drop (nat n_preds) grad,
           replicate (nat n_preds) 0 @ drop (nat n_preds) hess)"
  proof -
    have "Suc q < length query_boundaries" using assms(3) len by simp
    then have "query_boundaries ! Suc q \<le> last query_boundaries"
      using srt by (simp add: sorted_le_last)
    then have "k < nat n_preds" using assms(5) lst by (auto simp: slice_def)
    then show ?thesis by (simp add: Z_def zeroed_nth)
  qed
  ultimately show ?thesis by (simp add: Z_def)
qed



lemma example_kernel_run:
  "get_gradients_native [1, 0, 2, 2] [0, 1, 1 / 2, 1 / 2] 4 [2, 2] [0, 2, 4] 2
     [1, 1 / 2, 1 / 4] [1, 1 / 3] [1 / 4, 1 / 2, 3 / 4, 1] 4 (- 2) 2 1 [7, 7, 7, 7] [9, 9, 9, 9]
   = Some ([- (25 / 202), 25 / 202, 0, 0], [75 / 202, 75 / 202, 0, 0])"
  by code_simp

lemma example_table: "query_boundary_table [0, 2, 4] 2 4"
  by code_simp

text \<open>
  Claim C8. Let the query boundaries be a QueryBoundary table for the call, and let all
  documents of query \<open>q\<close> have the same gain. On well-formed input the kernel returns;
  and whenever it returns, every gradient and every Hessian entry of query \<open>q\<close> is
  zero, whatever the output arrays held before the call.
\<close>

theorem same_label_query_is_zero:
  assumes "query_boundary_table query_boundaries n_queries n_preds"
    and "q < nat n_queries"
    and "\<forall>k k'. query_boundaries ! q \<le> k \<and> k < query_boundaries ! Suc q
            \<and> query_boundaries ! q \<le> k' \<and> k' < query_boundaries ! Suc q
          \<longrightarrow> gains ! nat k = gains ! nat k'"
  shows "(kernel_input_ok gains preds n_preds query_boundaries n_queries discounts
            inverse_max_dcgs sigmoid_table n_sigmoid_bins lo hi factor grad hess
          \<longrightarrow> (\<exists>grad' hess'. get_gradients_native gains preds n_preds groups query_boundaries
                  n_queries discounts inverse_max_dcgs sigmoid_table n_sigmoid_bins lo hi factor
                  grad hess = Some (grad', hess')))
     \<and> (\<forall>grad' hess'. get_gradients_native gains preds n_preds groups query_boundaries
             n_queries discounts inverse_max_dcgs sigmoid_table n_sigmoid_bins lo hi factor
             grad hess = Some (grad', hess')
          \<longrightarrow> (\<forall>k. query_boundaries ! q \<le> int k \<and> int k < query_boundaries ! Suc q
                 \<longrightarrow> grad' ! k = 0 \<and> hess' ! k = 0))"
proof (rule conjI; intro allI impI)
  assume "kernel_input_ok gains preds n_preds query_boundaries n_queries discounts
            inverse_max_dcgs sigmoid_table n_sigmoid_bins lo hi factor grad hess"
  from kernel_total[OF this, of groups]
  show "\<exists>grad' hess'. get_gradients_native gains preds n_preds groups query_boundaries
                  n_queries discounts inverse_max_dcgs sigmoid_table n_sigmoid_bins lo hi factor
                  grad hess = Some (grad', hess')"
    by blast
next
  fix grad' hess' k
  assume r: "get_gradients_native gains preds n_preds groups query_boundaries
             n_queries discounts inverse_max_dcgs sigmoid_table n_sigmoid_bins lo hi factor
             grad hess = Some (grad', hess')"
    and k: "query_boundaries ! q \<le> int k \<and> int k < query_boundaries ! Suc q"
  have mem: "k \<in> slice query_boundaries q" using k by (simp add: slice_iff)
  have same: "gains ! nat j = gains ! nat j'"
    if "query_boundaries ! q \<le> j" "j < query_boundaries ! Suc q"
      "query_boundaries ! q \<le> j'" "j' < query_boundaries ! Suc q" for j j'
    using assms(3) that by blast
  show "grad' ! k = 0 \<and> hess' ! k = 0"
    by (rule kernel_same_label_zero[OF r assms(1,2) same mem])
qed

theorem same_label_query_is_zero_witness:
  "\<exists>grad' hess'. get_gradients_native [1, 0, 2, 2] [0, 1, 1 / 2, 1 / 2] 4 [2, 2] [0, 2, 4] 2
     [1, 1 / 2, 1 / 4] [1, 1 / 3] [1 / 4, 1 / 2, 3 / 4, 1] 4 (- 2) 2 1 [7, 7, 7, 7] [9, 9, 9, 9]
     = Some (grad', hess') \<and> grad' ! 2 = 0 \<and> hess' ! 2 = 0 \<and> grad' ! 3 = 0 \<and> hess' ! 3 = 0"
proof -
  have same: "\<forall>k k'. [0, 2, 4] ! 1 \<le> k \<and> k < [0, 2, 4] ! Suc 1
            \<and> [0, 2, 4] ! 1 \<le> k' \<and> k' < [0, 2, 4] ! Suc 1
          \<longrightarrow> [1, 0, 2, 2 :: real] ! nat k = [1, 0, 2, 2] ! nat k'"
  proof (intro allI impI)
    fix k k' :: int
    assume "[0, 2, 4] ! 1 \<le> k \<and> k < [0, 2, 4] ! Suc 1
            \<and> [0, 2, 4] ! 1 \<le> k' \<and> k' < [0, 2, 4] ! Suc 1"
    then have "(k = 2 \<or> k = 3) \<and> (k' = 2 \<or> k' = 3)" by auto
    then show "[1, 0, 2, 2 :: real] ! nat k = [1, 0, 2, 2] ! nat k'" by auto
  qed
  have q: "(1::nat) < nat 2" by simp
  note t = same_label_query_is_zero[OF example_table q same,
      of "[0, 1, 1 / 2, 1 / 2]" "[1, 1 / 2, 1 / 4]" "[1, 1 / 3]" "[1 / 4, 1 / 2, 3 / 4, 1]" 4
         "- 2" 2 1 "[7, 7, 7, 7]" "[9, 9, 9, 9]" "[2, 2]"]
  from t example_kernel_run have
    "\<forall>k. [0, 2, 4] ! 1 \<le> int k \<and> int k < [0, 2, 4] ! Suc 1
        \<longrightarrow> [- (25 / 202), 25 / 202, 0, 0 :: real] ! k = 0
          \<and> [75 / 202, 75 / 202, 0, 0 :: real] ! k = 0"
    by blast
  then show ?thesis using example_kernel_run by simp
qed



section \<open>The objectives\<close>

lemma guarded_Inr:
  "(if c then Some (Inl e) else map_option Inr x) = Some (Inr y) \<Longrightarrow> x = Some y"
  by (cases c; cases x) simp_all

lemma guarded_Inr_intro:
  "\<not> c \<Longrightarrow> x = Some y \<Longrightarrow> (if c then Some (Inl e) else map_option Inr x) = Some (Inr y)"
  by simp

lemma get_gradients_Inr:
  assumes "get_gradients gains preds n_preds groups query_boundaries n_queries discounts
             inverse_max_dcgs sigmoid_table n_sigmoid_bins lo hi factor grad hess
           = Some (Inr (grad', hess'))"
  shows "get_gradients_native gains preds n_preds groups query_boundaries n_queries discounts
             inverse_max_dcgs sigmoid_table n_sigmoid_bins lo hi factor grad hess
           = Some (grad', hess')"
  by (rule guarded_Inr) (rule assms[unfolded get_gradients_def])

lemma get_grad_hess_lengths:
  assumes "get_grad_hess lo hi labels preds groups calc = Some (Inr (grad, hess))"
  shows "length grad = length preds \<and> length hess = length preds"
proof -
  have "get_gradients labels preds (int (length preds)) groups
           (c_query_boundaries calc) (int (length (c_query_boundaries calc)) - 1)
           (c_discounts calc) (c_inverse_max_dcgs calc) (c_sigmoids calc)
           (int (length (c_sigmoids calc))) lo hi (c_sigmoid_idx_factor calc)
           (zeros (length preds)) (zeros (length preds)) = Some (Inr (grad, hess))"
    using assms by (simp add: get_grad_hess_def Let_def)
  then have "get_gradients_native labels preds (int (length preds)) groups
           (c_query_boundaries calc) (int (length (c_query_boundaries calc)) - 1)
           (c_discounts calc) (c_inverse_max_dcgs calc) (c_sigmoids calc)
           (int (length (c_sigmoids calc))) lo hi (c_sigmoid_idx_factor calc)
           (zeros (length preds)) (zeros (length preds)) = Some (grad, hess)"
    by (rule get_gradients_Inr)
  then have "length grad = length (zeros (length preds)) \<and> length hess = length (zeros (length preds))"
    by (rule kernel_lengths)
  then show ?thesis by (simp add: zeros_def)
qed

lemma blend_nth:
  "k < length xs \<Longrightarrow> k < length ys \<Longrightarrow> blend al xs ys ! k = al * xs ! k + (1 - al) * ys ! k"
  by (simp add: blend_def)

lemma get_grad_hess_is_single_objective:
  "groups \<noteq> [] \<Longrightarrow>
   get_grad_hess lo hi labels preds groups calc =
   lambdamart_objective lo hi preds \<lparr>label = labels, get_group = groups, calculator = calc\<rparr>"
  by (simp add: get_grad_hess_def lambdamart_objective_def)

lemma example_grad_hess_1:
  "get_grad_hess (- 50) 50 (label_1 example_two_labels) [0, 0] (get_group example_two_labels)
     (calculator_1 example_two_labels)
   = Some (Inr ([- (13 / 200), 13 / 200], [39 / 200, 39 / 200]))"
  by code_simp

lemma example_grad_hess_2:
  "get_grad_hess (- 50) 50 (label_2 example_two_labels) [0, 0] (get_group example_two_labels)
     (calculator_2 example_two_labels)
   = Some (Inr ([13 / 200, - (13 / 200)], [39 / 200, 39 / 200]))"
  by code_simp

text \<open>
  Claim C7. When the group sequence is not empty and the two single-objective
  computations (\<^verbatim>\<open>get_grad_hess\<close> on label set 1 and on label set 2, each with its own
  calculator, on the same predictions) return \<open>(grad_1, hess_1)\<close> and
  \<open>(grad_2, hess_2)\<close>, the combined objective returns arrays of the length of the
  predictions whose entries are \<open>alpha * grad_1[k] + (1 - alpha) * grad_2[k]\<close> and
  \<open>alpha * hess_1[k] + (1 - alpha) * hess_2[k]\<close>, for every \<open>alpha\<close>.
\<close>

theorem combined_objective_blends:
  assumes "get_group dataset \<noteq> []"
    and "get_grad_hess lo hi (label_1 dataset) preds (get_group dataset) (calculator_1 dataset)
           = Some (Inr (grad_1, hess_1))"
    and "get_grad_hess lo hi (label_2 dataset) preds (get_group dataset) (calculator_2 dataset)
           = Some (Inr (grad_2, hess_2))"
  shows "\<exists>grad hess. combined_objective lo hi preds dataset = Some (Inr (grad, hess))
     \<and> length grad = length preds \<and> length hess = length preds
     \<and> (\<forall>k < length preds.
           grad ! k = alpha dataset * grad_1 ! k + (1 - alpha dataset) * grad_2 ! k
           \<and> hess ! k = alpha dataset * hess_1 ! k + (1 - alpha dataset) * hess_2 ! k)"
proof -
  note l1 = get_grad_hess_lengths[OF assms(2)] and l2 = get_grad_hess_lengths[OF assms(3)]
  have "combined_objective lo hi preds dataset
      = Some (Inr (blend (alpha dataset) grad_1 grad_2, blend (alpha dataset) hess_1 hess_2))"
    using assms by (simp add: combined_objective_def)
  moreover have "length (blend (alpha dataset) grad_1 grad_2) = length preds"
    "length (blend (alpha dataset) hess_1 hess_2) = length preds"
    using l1 l2 by (simp_all add: blend_def)
  ultimately show ?thesis using l1 l2 by (simp add: blend_nth)
qed

theorem combined_objective_blends_witness:
  "\<exists>grad hess. combined_objective (- 50) 50 [0, 0] example_two_labels = Some (Inr (grad, hess))
     \<and> grad ! 0 = 1 / 4 * - (13 / 200) + (1 - 1 / 4) * (13 / 200)
     \<and> hess ! 0 = 1 / 4 * (39 / 200) + (1 - 1 / 4) * (39 / 200)"
proof -
  have g: "get_group example_two_labels \<noteq> []" by (simp add: example_two_labels_def)
  from combined_objective_blends[OF g example_grad_hess_1 example_grad_hess_2]
  obtain grad hess where
    "combined_objective (- 50) 50 [0, 0] example_two_labels = Some (Inr (grad, hess))"
    "\<forall>k<length [0, 0 :: real].
        grad ! k = alpha example_two_labels * [- (13 / 200), 13 / 200] ! k
                   + (1 - alpha example_two_labels) * [13 / 200, - (13 / 200)] ! k
        \<and> hess ! k = alpha example_two_labels * [39 / 200, 39 / 200] ! k
                   + (1 - alpha example_two_labels) * [39 / 200, 39 / 200] ! k"
    by blast
  then show ?thesis by (auto simp: example_two_labels_def)
qed

lemma kernel_input_ok_nonempty:
  assumes "kernel_input_ok gains preds n_preds query_boundaries n_queries discounts
             inverse_max_dcgs sigmoid_table n_sigmoid_bins lo hi factor grad hess"
    and "1 \<le> n_queries"
  shows "gains \<noteq> []" "preds \<noteq> []" "query_boundaries \<noteq> []" "discounts \<noteq> []"
    "inverse_max_dcgs \<noteq> []" "sigmoid_table \<noteq> []" "grad \<noteq> []" "hess \<noteq> []"
proof -
  have nq: "n_queries < int (length query_boundaries)" "n_queries \<le> int (length inverse_max_dcgs)"
    and sg: "sigmoid_table_ok sigmoid_table n_sigmoid_bins lo hi factor"
    and qs: "\<forall>i\<in>set (range_upto n_queries).
           0 \<le> query_boundaries ! nat i
           \<and> query_boundaries ! nat i < query_boundaries ! nat (i + 1)
           \<and> query_boundaries ! nat (i + 1) - query_boundaries ! nat i < 2 ^ 31
           \<and> query_boundaries ! nat (i + 1) - query_boundaries ! nat i < int (length discounts)
           \<and> query_boundaries ! nat (i + 1) \<le> int (length gains)
           \<and> query_boundaries ! nat (i + 1) \<le> int (length preds)
           \<and> query_boundaries ! nat (i + 1) \<le> int (length grad)
           \<and> query_boundaries ! nat (i + 1) \<le> int (length hess)"
    using assms(1) unfolding kernel_input_ok_def by blast+
  have "0 \<in> set (range_upto n_queries)" using assms(2) by (simp add: range_upto_def)
  with qs have z: "0 \<le> query_boundaries ! nat 0
           \<and> query_boundaries ! nat 0 < query_boundaries ! nat (0 + 1)
           \<and> query_boundaries ! nat (0 + 1) - query_boundaries ! nat 0 < 2 ^ 31
           \<and> query_boundaries ! nat (0 + 1) - query_boundaries ! nat 0 < int (length discounts)
           \<and> query_boundaries ! nat (0 + 1) \<le> int (length gains)
           \<and> query_boundaries ! nat (0 + 1) \<le> int (length preds)
           \<and> query_boundaries ! nat (0 + 1) \<le> int (length grad)
           \<and> query_boundaries ! nat (0 + 1) \<le> int (length hess)"
    by (rule bspec)
  show "gains \<noteq> []" "preds \<noteq> []" "discounts \<noteq> []" "grad \<noteq> []" "hess \<noteq> []"
    using z by auto
  show "query_boundaries \<noteq> []" "inverse_max_dcgs \<noteq> []" using nq assms(2) by auto
  show "sigmoid_table \<noteq> []" using sg by (auto simp: sigmoid_table_ok_def)
qed

lemma get_gradients_total:
  assumes "kernel_input_ok gains preds n_preds query_boundaries n_queries discounts
             inverse_max_dcgs sigmoid_table n_sigmoid_bins lo hi factor grad hess"
    and "1 \<le> n_queries" "groups \<noteq> []"
  shows "\<exists>grad' hess'. get_gradients gains preds n_preds groups query_boundaries n_queries
            discounts inverse_max_dcgs sigmoid_table n_sigmoid_bins lo hi factor grad hess
          = Some (Inr (grad', hess')) \<and> length grad' = length grad \<and> length hess' = length hess"
proof -
  from kernel_total[OF assms(1), of groups] obtain grad' hess' where
    k: "get_gradients_native gains preds n_preds groups query_boundaries n_queries
            discounts inverse_max_dcgs sigmoid_table n_sigmoid_bins lo hi factor grad hess
          = Some (grad', hess')" and l: "length grad' = length grad" "length hess' = length hess"
    by blast
  have "\<not> (gains = [] \<or> preds = [] \<or> groups = [] \<or> query_boundaries = [] \<or> discounts = []
         \<or> inverse_max_dcgs = [] \<or> sigmoid_table = [] \<or> grad = [] \<or> hess = [])"
    using kernel_input_ok_nonempty[OF assms(1,2)] assms(3) by blast
  then have "get_gradients gains preds n_preds groups query_boundaries n_queries
            discounts inverse_max_dcgs sigmoid_table n_sigmoid_bins lo hi factor grad hess
          = Some (Inr (grad', hess'))"
    unfolding get_gradients_def using k by (rule guarded_Inr_intro)
  then show ?thesis using l by blast
qed

text \<open>
  Claim C3, as stated: the objective fails when the sum of the group sizes differs from
  the number of predictions. The example dataset has one group of 2 documents; called
  with 3 predictions, the objective returns gradient and Hessian arrays.
\<close>

theorem objective_unchecked_sum_counterexample:
  "sum_list (get_group example_dataset) = 2 \<and> length [0, 0, 0 :: real] = 3
   \<and> lambdamart_objective (- 50) 50 [0, 0, 0] example_dataset
      = Some (Inr ([- (13 / 200), 13 / 200, 0], [39 / 200, 39 / 200, 0]))"
  by (intro conjI; code_simp)

text \<open>
  Claim C3, amended. The objective fails with an error when the group sequence is empty. It compares the group sizes with nothing: with a non-empty group
  sequence the result does not depend on the groups at all, and on well-formed kernel
  input it is a pair of arrays of the length of the predictions.
\<close>

theorem lambdamart_objective_guard:
  "(get_group dataset = [] \<longrightarrow> (\<exists>e. lambdamart_objective lo hi preds dataset = Some (Inl e)))
   \<and> (get_group dataset \<noteq> [] \<and> groups' \<noteq> [] \<longrightarrow>
        lambdamart_objective lo hi preds (dataset\<lparr>get_group := groups'\<rparr>)
          = lambdamart_objective lo hi preds dataset)
   \<and> (get_group dataset \<noteq> [] \<and> 2 \<le> length (c_query_boundaries (calculator dataset))
        \<and> kernel_input_ok (label dataset) preds (int (length preds))
             (c_query_boundaries (calculator dataset))
             (int (length (c_query_boundaries (calculator dataset))) - 1)
             (c_discounts (calculator dataset)) (c_inverse_max_dcgs (calculator dataset))
             (c_sigmoids (calculator dataset)) (int (length (c_sigmoids (calculator dataset))))
             lo hi (c_sigmoid_idx_factor (calculator dataset))
             (zeros (length preds)) (zeros (length preds))
        \<longrightarrow> (\<exists>grad hess. lambdamart_objective lo hi preds dataset = Some (Inr (grad, hess))
               \<and> length grad = length preds \<and> length hess = length preds))"
proof (intro conjI impI)
  assume "get_group dataset = []"
  then show "\<exists>e. lambdamart_objective lo hi preds dataset = Some (Inl e)"
    by (simp add: lambdamart_objective_def)
next
  assume "get_group dataset \<noteq> [] \<and> groups' \<noteq> []"
  then show "lambdamart_objective lo hi preds (dataset\<lparr>get_group := groups'\<rparr>)
          = lambdamart_objective lo hi preds dataset"
    by (simp add: lambdamart_objective_def get_gradients_def get_gradients_native_def Let_def)
next
  assume a: "get_group dataset \<noteq> [] \<and> 2 \<le> length (c_query_boundaries (calculator dataset))
        \<and> kernel_input_ok (label dataset) preds (int (length preds))
             (c_query_boundaries (calculator dataset))
             (int (length (c_query_boundaries (calculator dataset))) - 1)
             (c_discounts (calculator dataset)) (c_inverse_max_dcgs (calculator dataset))
             (c_sigmoids (calculator dataset)) (int (length (c_sigmoids (calculator dataset))))
             lo hi (c_sigmoid_idx_factor (calculator dataset))
             (zeros (length preds)) (zeros (length preds))"
  then have "1 \<le> int (length (c_query_boundaries (calculator dataset))) - 1" by simp
  from get_gradients_total[OF conjunct2[OF conjunct2[OF a]] this conjunct1[OF a]]
  show "\<exists>grad hess. lambdamart_objective lo hi preds dataset = Some (Inr (grad, hess))
               \<and> length grad = length preds \<and> length hess = length preds"
    using a by (simp add: lambdamart_objective_def zeros_def)
qed

theorem lambdamart_objective_guard_witness:
  "(\<exists>e. lambdamart_objective (- 50) 50 [0, 0] (example_dataset\<lparr>get_group := []\<rparr>)
          = Some (Inl e))
   \<and> lambdamart_objective (- 50) 50 [0, 0] (example_dataset\<lparr>get_group := [5, 7]\<rparr>)
       = lambdamart_objective (- 50) 50 [0, 0] example_dataset
   \<and> (\<exists>grad hess. lambdamart_objective (- 50) 50 [0, 0] example_dataset = Some (Inr (grad, hess))
         \<and> length grad = 2 \<and> length hess = 2)"
proof -
  have ok: "kernel_input_ok (label example_dataset) [0, 0] (int (length [0, 0 :: real]))
             (c_query_boundaries (calculator example_dataset))
             (int (length (c_query_boundaries (calculator example_dataset))) - 1)
             (c_discounts (calculator example_dataset)) (c_inverse_max_dcgs (calculator example_dataset))
             (c_sigmoids (calculator example_dataset))
             (int (length (c_sigmoids (calculator example_dataset))))
             (- 50) 50 (c_sigmoid_idx_factor (calculator example_dataset))
             (zeros (length [0, 0 :: real])) (zeros (length [0, 0 :: real]))"
    by code_simp
  have e: "get_group (example_dataset\<lparr>get_group := []\<rparr>) = []"
    "get_group example_dataset \<noteq> [] \<and> [5, 7 :: int] \<noteq> []"
    "get_group example_dataset \<noteq> [] \<and> 2 \<le> length (c_query_boundaries (calculator example_dataset))"
    by (simp_all add: example_dataset_def example_calculator_def)
  from lambdamart_objective_guard[of "example_dataset\<lparr>get_group := []\<rparr>" "- 50" 50 "[0, 0]"] e(1)
  have 1: "\<exists>e. lambdamart_objective (- 50) 50 [0, 0] (example_dataset\<lparr>get_group := []\<rparr>)
             = Some (Inl e)" by blast
  from lambdamart_objective_guard[of example_dataset "- 50" 50 "[0, 0]" "[5, 7]"] e(2,3) ok
  have 2: "lambdamart_objective (- 50) 50 [0, 0] (example_dataset\<lparr>get_group := [5, 7]\<rparr>)
       = lambdamart_objective (- 50) 50 [0, 0] example_dataset"
    and 3: "\<exists>grad hess. lambdamart_objective (- 50) 50 [0, 0] example_dataset = Some (Inr (grad, hess))
         \<and> length grad = length [0, 0 :: real] \<and> length hess = length [0, 0 :: real]"
    by blast+
  from 1 2 3 show ?thesis by (simp add: numeral_2_eq_2)
qed

end
